theory Spec2Isabelle
  imports Main "HOL-Library.Word" "HOL-Library.AList"
begin

unbundle bit_operations_syntax

section \<open>The prepared statements cache (prepareds/prepareds.go)\<close>

subsection \<open>Strings and slices\<close>

text \<open>
  A Go string is a sequence of bytes, here a \<open>char list\<close>. Slicing \<open>s[a:b]\<close> panics
  unless \<open>0 \<le> a \<le> b \<le> len(s)\<close>; the panic is the value \<open>Inl SliceBoundsOutOfRange\<close>.
\<close>

datatype Panic = SliceBoundsOutOfRange

definition slice_to :: "string \<Rightarrow> int \<Rightarrow> Panic + string" where
  "slice_to s b =
     (if b < 0 \<or> int (length s) < b then Inl SliceBoundsOutOfRange
      else Inr (take (nat b) s))"

definition slice_from :: "string \<Rightarrow> int \<Rightarrow> Panic + string" where
  "slice_from s a =
     (if a < 0 \<or> int (length s) < a then Inl SliceBoundsOutOfRange
      else Inr (drop (nat a) s))"

text \<open>
  \<open>strings.ToUpper\<close> on ASCII text: the letters \<open>a..z\<close> move to \<open>A..Z\<close>, every other
  byte below 0x80 stays. (Go maps runes; the model is the function on ASCII bytes and
  leaves the bytes from 0x80 on as they are.)
\<close>

definition upper_byte :: "char \<Rightarrow> char" where
  "upper_byte c =
     (let n = (of_char c :: nat) in if 97 \<le> n \<and> n \<le> 122 then char_of (n - 32) else c)"

definition ToUpper :: "string \<Rightarrow> string" where
  "ToUpper s = map upper_byte s"

text \<open>\<open>strings.Index(s, sub)\<close>: the index of the first occurrence of \<open>sub\<close>, or -1.\<close>

fun index_from :: "string \<Rightarrow> string \<Rightarrow> nat \<Rightarrow> int" where
  "index_from [] sub n = (if sub = [] then int n else - 1)"
| "index_from (c # cs) sub n =
     (if take (length sub) (c # cs) = sub then int n else index_from cs sub (Suc n))"

definition Index :: "string \<Rightarrow> string \<Rightarrow> int" where
  "Index s sub = index_from s sub 0"

text \<open>
  \<open>preparedCache.GetText\<close>:
  \<^verbatim>\<open>
  prepare := text[:offset]
  i := strings.Index(strings.ToUpper(prepare), "FORCE")
  if i < 0 { return text }
  return prepare[:i] + prepare[i+6:] + text[offset:]
  \<close>
\<close>

definition GetText :: "string \<Rightarrow> int \<Rightarrow> Panic + string" where
  "GetText text offset =
     (case slice_to text offset of
        Inl p \<Rightarrow> Inl p
      | Inr prepare \<Rightarrow>
          (let i = Index (ToUpper prepare) ''FORCE'' in
           if i < 0 then Inr text
           else
             (case slice_to prepare i of
                Inl p \<Rightarrow> Inl p
              | Inr before \<Rightarrow>
                  (case slice_from prepare (i + 6) of
                     Inl p \<Rightarrow> Inl p
                   | Inr after \<Rightarrow>
                       (case slice_from text offset of
                          Inl p \<Rightarrow> Inl p
                        | Inr rest \<Rightarrow> Inr (before @ after @ rest))))))"

subsection \<open>Values\<close>

text \<open>
  \<open>value.Value\<close> is a tagged union. A NUMBER holds a float64; the code below only asks
  whether it is infinite or NaN and otherwise hands it on, so a float64 is modelled by
  its class: \<open>Finite m e\<close> stands for the finite number \<open>m * 2 ^ e\<close>.
\<close>

datatype float64 = Finite int int | PosInf | NegInf | NaN

datatype val =
    MISSING_VALUE
  | NULL_VALUE
  | boolValue bool
  | floatValue float64
  | stringValue string
  | sliceValue "val list"
  | objectValue "(string \<times> val) list"
  | binaryValue string

datatype value_Type = MISSING | NULL | BINARY | BOOLEAN | NUMBER | STRING | ARRAY | OBJECT

fun TypeOf :: "val \<Rightarrow> value_Type" where
  "TypeOf MISSING_VALUE = MISSING"
| "TypeOf NULL_VALUE = NULL"
| "TypeOf (boolValue b) = BOOLEAN"
| "TypeOf (floatValue f) = NUMBER"
| "TypeOf (stringValue s) = STRING"
| "TypeOf (sliceValue xs) = ARRAY"
| "TypeOf (objectValue fs) = OBJECT"
| "TypeOf (binaryValue b) = BINARY"

subsection \<open>Expressions\<close>

text \<open>
  Expressions are the trees of package expression (which is not among the sources), cut
  down to the node kinds that occur below: constants, identifiers, \<open>LT\<close>, and any other
  function with its operands.
\<close>

datatype Expression =
    Constant val
  | Identifier string
  | LT Expression Expression
  | Function string "Expression list"

subsection \<open>Plan operators and their JSON form (plan/parallel.go, nest_nl.go, delete.go)\<close>

text \<open>
  A JSON document as a tree; an object is a list of members, read with \<open>map_of\<close>, so of
  two members with one name the first counts. \<open>JNumber\<close> is a number written from a Go
  integer, \<open>JFloat\<close> one written from a float64.
\<close>

datatype json = JNull | JBool bool | JNumber int | JFloat float64 | JString string
  | JArray "json list" | JObject "(string \<times> json) list"

text \<open>
  \<open>algebra.KeyspaceRef\<close>, the \<open>term\<close> of a \<open>SendDelete\<close>: the path of a keyspace and its
  alias. \<open>datastore.Keyspace\<close>, the \<open>keyspace\<close> of a \<open>SendDelete\<close>, is a handle that the
  datastore hands out.
\<close>

record KeyspaceRef =
  ref_namespace :: string
  ref_bucket :: string
  ref_scope :: string
  ref_keyspace :: string
  ref_as :: string

datatype KeyspaceHandle = KeyspaceHandle string

text \<open>
  What the three operators call in packages that are not among the sources:
  \<^item> \<open>Stringer\<close>: \<open>expression.NewStringer().Visit\<close>, on an expression that may be \<open>nil\<close>;
  \<^item> \<open>Expression_MarshalJSON\<close>: what \<open>json.Marshal\<close> writes for an expression;
  \<^item> \<open>parser_Parse\<close>: \<open>parser.Parse\<close>;
  \<^item> \<open>getCost\<close>, \<open>getCardinality\<close>: the helpers of package plan of these names;
  \<^item> \<open>GetKeyspace\<close>: \<open>datastore.GetKeyspace\<close>;
  \<^item> \<open>MarshalKeyspace\<close>: the members that \<open>KeyspaceRef.MarshalKeyspace\<close> writes into the map.
  \<open>None\<close> is an error return.
\<close>

record PlanEnv =
  Stringer :: "Expression option \<Rightarrow> string"
  Expression_MarshalJSON :: "Expression \<Rightarrow> json"
  parser_Parse :: "string \<Rightarrow> Expression option"
  getCost :: "float64 \<Rightarrow> float64"
  getCardinality :: "float64 \<Rightarrow> float64"
  GetKeyspace :: "string \<Rightarrow> string \<Rightarrow> string \<Rightarrow> string \<Rightarrow> KeyspaceHandle option"
  MarshalKeyspace :: "KeyspaceRef option \<Rightarrow> (string \<times> json) list"

text \<open>
  \<open>plan.Operator\<close>, with the three operators among the sources and their fields in the
  order of the struct:
  \<^item> \<open>Parallel child maxParallelism\<close>;
  \<^item> \<open>NLNest outer alias onclause hintError cost cardinality child\<close>;
  \<^item> \<open>SendDelete keyspace term alias limit\<close>.
  An expression or a \<open>term\<close> that is \<open>nil\<close> is \<open>None\<close>.
\<close>

datatype plan_Operator =
    Parallel (child: plan_Operator) (maxParallelism: int)
  | NLNest bool string "Expression option" string float64 float64 plan_Operator
  | SendDelete KeyspaceHandle "KeyspaceRef option" string "Expression option"

text \<open>The test \<open>x > 0.0\<close> on a float64.\<close>

fun positive :: "float64 \<Rightarrow> bool" where
  "positive (Finite m e) = (0 < m)"
| "positive PosInf = True"
| "positive NegInf = False"
| "positive NaN = False"

text \<open>
  \<open>MarshalBase(nil)\<close>, as \<open>MarshalJSON\<close> calls it. The map \<open>r\<close> is written in the order of
  the source; the list has the last assignment first, so that a later assignment to a
  name hides an earlier one.
  \<^verbatim>\<open>
  // Parallel
  r := map[string]interface{}{"#operator": "Parallel"}
  if this.maxParallelism > 0 { r["maxParallelism"] = this.maxParallelism }
  ... r["~child"] = this.child
  // NLNest
  r := map[string]interface{}{"#operator": "NestedLoopNest"}
  r["alias"] = this.alias
  r["on_clause"] = expression.NewStringer().Visit(this.onclause)
  if this.outer { r["outer"] = this.outer }
  if this.hintError != "" { r["hint_not_followed"] = this.hintError }
  if this.cost > 0.0 { r["cost"] = this.cost }
  if this.cardinality > 0.0 { r["cardinality"] = this.cardinality }
  ... r["~child"] = this.child
  // SendDelete
  r := map[string]interface{}{"#operator": "SendDelete"}
  this.term.MarshalKeyspace(r)
  r["alias"] = this.alias
  if this.limit != nil { r["limit"] = this.limit }
  \<close>
\<close>

fun Operator_MarshalBase :: "PlanEnv \<Rightarrow> plan_Operator \<Rightarrow> json" where
  "Operator_MarshalBase env (Parallel c mp) =
     JObject ([(''~child'', Operator_MarshalBase env c)]
              @ (if mp > 0 then [(''maxParallelism'', JNumber mp)] else [])
              @ [(''#operator'', JString ''Parallel'')])"
| "Operator_MarshalBase env (NLNest outer alias onclause hintError cost cardinality c) =
     JObject ([(''~child'', Operator_MarshalBase env c)]
              @ (if positive cardinality then [(''cardinality'', JFloat cardinality)] else [])
              @ (if positive cost then [(''cost'', JFloat cost)] else [])
              @ (if hintError \<noteq> [] then [(''hint_not_followed'', JString hintError)] else [])
              @ (if outer then [(''outer'', JBool outer)] else [])
              @ [(''on_clause'', JString (Stringer env onclause)),
                 (''alias'', JString alias),
                 (''#operator'', JString ''NestedLoopNest'')])"
| "Operator_MarshalBase env (SendDelete keyspace ksref alias limit) =
     JObject ((case limit of
                 None \<Rightarrow> []
               | Some l \<Rightarrow> [(''limit'', Expression_MarshalJSON env l)])
              @ [(''alias'', JString alias)]
              @ MarshalKeyspace env ksref
              @ [(''#operator'', JString ''SendDelete'')])"

text \<open>
  \<open>json.Unmarshal(raw, &child_type)\<close> with
  \<open>child_type struct { Operator string `json:"#operator"` }\<close>: an absent or null member
  leaves the empty string, a member of another type is an error.
\<close>

definition operator_name :: "json \<Rightarrow> string option" where
  "operator_name raw =
     (case raw of
        JObject fs \<Rightarrow>
          (case map_of fs ''#operator'' of
             None \<Rightarrow> Some []
           | Some JNull \<Rightarrow> Some []
           | Some (JString s) \<Rightarrow> Some s
           | Some _ \<Rightarrow> None)
      | JNull \<Rightarrow> Some []
      | _ \<Rightarrow> None)"

text \<open>
  The members of the struct that \<open>json.Unmarshal\<close> fills, by their Go type: absent or
  null leaves the zero value, a member of another type is an error.
\<close>

definition int_field :: "(string \<times> json) list \<Rightarrow> string \<Rightarrow> int option" where
  "int_field fs k =
     (case map_of fs k of
        None \<Rightarrow> Some 0
      | Some JNull \<Rightarrow> Some 0
      | Some (JNumber n) \<Rightarrow> Some n
      | Some _ \<Rightarrow> None)"

definition string_field :: "(string \<times> json) list \<Rightarrow> string \<Rightarrow> string option" where
  "string_field fs k =
     (case map_of fs k of
        None \<Rightarrow> Some []
      | Some JNull \<Rightarrow> Some []
      | Some (JString s) \<Rightarrow> Some s
      | Some _ \<Rightarrow> None)"

definition bool_field :: "(string \<times> json) list \<Rightarrow> string \<Rightarrow> bool option" where
  "bool_field fs k =
     (case map_of fs k of
        None \<Rightarrow> Some False
      | Some JNull \<Rightarrow> Some False
      | Some (JBool b) \<Rightarrow> Some b
      | Some _ \<Rightarrow> None)"

definition float_field :: "(string \<times> json) list \<Rightarrow> string \<Rightarrow> float64 option" where
  "float_field fs k =
     (case map_of fs k of
        None \<Rightarrow> Some (Finite 0 0)
      | Some JNull \<Rightarrow> Some (Finite 0 0)
      | Some (JFloat f) \<Rightarrow> Some f
      | Some (JNumber n) \<Rightarrow> Some (Finite n 0)
      | Some _ \<Rightarrow> None)"

text \<open>
  An expression member, read as a string and parsed when the string is not empty
  (\<open>if _unmarshalled.Limit != "" { this.limit, err = parser.Parse(...) }\<close>): the outer
  \<open>None\<close> is the error of the parser, \<open>Some None\<close> the field left \<open>nil\<close>.
\<close>

definition parsed :: "PlanEnv \<Rightarrow> string \<Rightarrow> Expression option option" where
  "parsed env s =
     (if s \<noteq> [] then
        (case parser_Parse env s of None \<Rightarrow> None | Some e \<Rightarrow> Some (Some e))
      else Some None)"

text \<open>
  Modelled from the spec: \<open>MakeOperator(name, raw)\<close> (its file is not among the
  sources): the dispatch on the \<open>"#operator"\<close> discriminator that creates the operator of
  that kind and runs its \<open>UnmarshalJSON\<close>; the kinds are those of the three operators
  among the sources, every other name is an error. The three \<open>UnmarshalJSON\<close> are the
  source's:
  \<^verbatim>\<open>
  // Parallel
  err := json.Unmarshal(body, &_unmarshalled)
  err = json.Unmarshal(_unmarshalled.Child, &child_type)
  this.maxParallelism = _unmarshalled.MaxParallelism
  this.child, err = MakeOperator(child_type.Operator, _unmarshalled.Child)
  // NLNest
  err := json.Unmarshal(body, &_unmarshalled)
  if _unmarshalled.Onclause != "" { this.onclause, err = parser.Parse(_unmarshalled.Onclause) }
  this.outer = ...; this.alias = ...; this.hintError = ...
  this.cost = getCost(_unmarshalled.Cost)
  this.cardinality = getCardinality(_unmarshalled.Cardinality)
  err = json.Unmarshal(raw_child, &child_type)
  this.child, err = MakeOperator(child_type.Op_name, raw_child)
  // SendDelete
  err := json.Unmarshal(body, &_unmarshalled)
  this.alias = _unmarshalled.Alias
  if _unmarshalled.Limit != "" { this.limit, err = parser.Parse(_unmarshalled.Limit) }
  this.keyspace, err = datastore.GetKeyspace(namespace, bucket, scope, keyspace)
  \<close>
  \<open>SendDelete.UnmarshalJSON\<close> does not assign \<open>term\<close>: it stays \<open>nil\<close>, as \<open>New()\<close> made
  it. \<open>None\<close> is the error return.
\<close>

function MakeOperator :: "PlanEnv \<Rightarrow> string \<Rightarrow> json \<Rightarrow> plan_Operator option" where
  "MakeOperator env kind body =
     (if kind = ''Parallel'' then
        (case body of
           JObject fs \<Rightarrow>
             (case int_field fs ''maxParallelism'' of
                None \<Rightarrow> None
              | Some mp \<Rightarrow>
                  (case map_of fs ''~child'' of
                     None \<Rightarrow> None
                   | Some raw \<Rightarrow>
                       (case operator_name raw of
                          None \<Rightarrow> None
                        | Some k \<Rightarrow>
                            (case MakeOperator env k raw of
                               None \<Rightarrow> None
                             | Some c \<Rightarrow> Some (Parallel c mp)))))
         | _ \<Rightarrow> None)
      else if kind = ''NestedLoopNest'' then
        (case body of
           JObject fs \<Rightarrow>
             (case (string_field fs ''on_clause'', bool_field fs ''outer'',
                    string_field fs ''alias'', string_field fs ''hint_not_followed'',
                    float_field fs ''cost'', float_field fs ''cardinality'') of
                (Some oc, Some outer, Some alias, Some hintError, Some cost, Some cardinality) \<Rightarrow>
                  (case parsed env oc of
                     None \<Rightarrow> None
                   | Some onclause \<Rightarrow>
                       (case map_of fs ''~child'' of
                          None \<Rightarrow> None
                        | Some raw \<Rightarrow>
                            (case operator_name raw of
                               None \<Rightarrow> None
                             | Some k \<Rightarrow>
                                 (case MakeOperator env k raw of
                                    None \<Rightarrow> None
                                  | Some c \<Rightarrow>
                                      Some (NLNest outer alias onclause hintError
                                              (getCost env cost)
                                              (getCardinality env cardinality) c)))))
              | _ \<Rightarrow> None)
         | _ \<Rightarrow> None)
      else if kind = ''SendDelete'' then
        (case body of
           JObject fs \<Rightarrow>
             (case (string_field fs ''namespace'', string_field fs ''bucket'',
                    string_field fs ''scope'', string_field fs ''keyspace'',
                    string_field fs ''alias'', string_field fs ''limit'') of
                (Some ns, Some b, Some s, Some ks, Some alias, Some li) \<Rightarrow>
                  (case parsed env li of
                     None \<Rightarrow> None
                   | Some limit \<Rightarrow>
                       (case GetKeyspace env ns b s ks of
                          None \<Rightarrow> None
                        | Some keyspace \<Rightarrow> Some (SendDelete keyspace None alias limit)))
              | _ \<Rightarrow> None)
         | _ \<Rightarrow> None)
      else None)"
  by pat_completeness auto
termination
proof -
  have smaller: "size raw < Suc (size_list (size_prod (\<lambda>_. 0) size) fs)"
    if "map_of fs k = Some raw" for fs :: "(string \<times> json) list" and k raw
  proof -
    from that have "(k, raw) \<in> set fs" by (rule map_of_SomeD)
    then show ?thesis by (induction fs) auto
  qed
  show ?thesis
    by (relation "measure (\<lambda>(env, k, j). size j)") (auto dest: smaller)
qed

declare MakeOperator.simps [simp del]

text \<open>
  What an operator tree is after \<open>MarshalBase\<close> and \<open>MakeOperator\<close>: a \<open>maxParallelism\<close>,
  cost or cardinality that is not positive is left out and read as zero, cost and
  cardinality go through \<open>getCost\<close> and \<open>getCardinality\<close>, and the \<open>term\<close> of a
  \<open>SendDelete\<close> is \<open>nil\<close>.
\<close>

fun reloaded :: "PlanEnv \<Rightarrow> plan_Operator \<Rightarrow> plan_Operator" where
  "reloaded env (Parallel c mp) = Parallel (reloaded env c) (if mp > 0 then mp else 0)"
| "reloaded env (NLNest outer alias onclause hintError cost cardinality c) =
     NLNest outer alias onclause hintError
       (getCost env (if positive cost then cost else Finite 0 0))
       (getCardinality env (if positive cardinality then cardinality else Finite 0 0))
       (reloaded env c)"
| "reloaded env (SendDelete keyspace ksref alias limit) = SendDelete keyspace None alias limit"

text \<open>
  The operator trees that the collaborators take there and back: the parser reads an
  expression back from what was written for it (and nothing was written for \<open>nil\<close>),
  \<open>MarshalKeyspace\<close> writes the path as four strings that the datastore resolves to the
  keyspace of the operator, and it writes neither \<open>"#operator"\<close> nor \<open>"limit"\<close>.
\<close>

definition expression_ok :: "PlanEnv \<Rightarrow> string \<Rightarrow> Expression option \<Rightarrow> bool" where
  "expression_ok env s e = (parsed env s = Some e)"

fun operator_ok :: "PlanEnv \<Rightarrow> plan_Operator \<Rightarrow> bool" where
  "operator_ok env (Parallel c mp) = operator_ok env c"
| "operator_ok env (NLNest outer alias onclause hintError cost cardinality c) =
     (expression_ok env (Stringer env onclause) onclause \<and> operator_ok env c)"
| "operator_ok env (SendDelete keyspace ksref alias limit) =
     (let m = MarshalKeyspace env ksref
      in map_of m ''#operator'' = None \<and> map_of m ''limit'' = None
         \<and> (case (string_field m ''namespace'', string_field m ''bucket'',
                   string_field m ''scope'', string_field m ''keyspace'') of
               (Some ns, Some b, Some s, Some ks) \<Rightarrow> GetKeyspace env ns b s ks = Some keyspace
             | _ \<Rightarrow> False)
         \<and> (case limit of
               None \<Rightarrow> True
             | Some l \<Rightarrow>
                 (case Expression_MarshalJSON env l of
                    JString s \<Rightarrow> s \<noteq> [] \<and> parser_Parse env s = Some l
                  | _ \<Rightarrow> False)))"


subsection \<open>Plans and cache entries\<close>

text \<open>
  \<open>plan.Prepared\<close>, with the fields that prepareds.go reads and writes through its
  accessors (\<open>Name()\<close>, \<open>Text()\<close>, \<open>Type()\<close>, \<open>IndexApiVersion()\<close>, \<open>FeatureControls()\<close>,
  \<open>EncodedPlan()\<close>) and the operator tree.
\<close>

record plan_Prepared =
  Name :: string
  Text :: string
  Type :: string
  IndexApiVersion :: int
  FeatureControls :: "64 word"
  EncodedPlan :: string
  Operator :: "plan_Operator option"

text \<open>
  \<open>CacheEntry\<close>. \<open>LastUse\<close> is a point in time (a number), \<open>Uses\<close> an int32, the six
  timing fields are uint64.
\<close>

record CacheEntry =
  Prepared :: plan_Prepared
  LastUse :: nat
  Uses :: "32 word"
  ServiceTime :: "64 word"
  RequestTime :: "64 word"
  MinServiceTime :: "64 word"
  MinRequestTime :: "64 word"
  MaxServiceTime :: "64 word"
  MaxRequestTime :: "64 word"
  populated :: bool

definition MaxUint64 :: "64 word" where
  "MaxUint64 = - 1"

text \<open>
  \<open>util.TestAndSetUint64(loc, new, test, 0)\<close> run by one caller at a time: the location
  takes the new value when \<open>test old new\<close> holds and keeps the old one otherwise.
\<close>

definition TestAndSetUint64 :: "64 word \<Rightarrow> 64 word \<Rightarrow> (64 word \<Rightarrow> 64 word \<Rightarrow> bool) \<Rightarrow> 64 word" where
  "TestAndSetUint64 old new test = (if test old new then new else old)"

text \<open>
  The closure that \<open>RecordPreparedMetrics\<close> passes to \<open>cache.Get\<close>; \<open>requestTime\<close> and
  \<open>serviceTime\<close> are the durations after their conversion \<open>uint64(d)\<close>.
\<close>

definition recordMetrics :: "64 word \<Rightarrow> 64 word \<Rightarrow> CacheEntry \<Rightarrow> CacheEntry" where
  "recordMetrics requestTime serviceTime ce =
     ce\<lparr> ServiceTime := ServiceTime ce + serviceTime,
         MinServiceTime := TestAndSetUint64 (MinServiceTime ce) serviceTime (\<lambda>old new. old > new),
         MaxServiceTime := TestAndSetUint64 (MaxServiceTime ce) serviceTime (\<lambda>old new. old < new),
         RequestTime := RequestTime ce + requestTime,
         MinRequestTime := TestAndSetUint64 (MinRequestTime ce) requestTime (\<lambda>old new. old > new),
         MaxRequestTime := TestAndSetUint64 (MaxRequestTime ce) requestTime (\<lambda>old new. old < new) \<rparr>"

subsection \<open>The generic cache\<close>

text \<open>
  Modelled from the spec: \<open>util.GenCache\<close> (package util is not among the sources).
  The spec describes it as a bounded map from name to entry with LRU eviction, whose size
  never exceeds the configured limit; \<open>Use\<close> promotes to MRU and \<open>Get\<close> does not;
  \<open>Add\<close> inserts, or hands the entry that is already there to the caller's function,
  which answers \<open>AMEND\<close> (keep the amended old entry) or \<open>IGNORE\<close>; \<open>Delete\<close> removes
  and reports whether there was something to remove. The entries are listed from the most
  to the least recently used one. An entry is a pointer in the source, so what a caller's
  function changes in an entry is written back under its name.
\<close>

record GenCache =
  entries :: "(string \<times> CacheEntry) list"
  cacheLimit :: nat

datatype Operation = AMEND | IGNORE

definition GenCache_Get ::
  "GenCache \<Rightarrow> string \<Rightarrow> (CacheEntry \<Rightarrow> CacheEntry) option \<Rightarrow> GenCache \<times> CacheEntry option" where
  "GenCache_Get c n process =
     (case map_of (entries c) n of
        None \<Rightarrow> (c, None)
      | Some e \<Rightarrow>
          (case process of
             None \<Rightarrow> (c, Some e)
           | Some f \<Rightarrow> (c\<lparr>entries := AList.update n (f e) (entries c)\<rparr>, Some (f e))))"

definition GenCache_Use ::
  "GenCache \<Rightarrow> string \<Rightarrow> (CacheEntry \<Rightarrow> CacheEntry) option \<Rightarrow> GenCache \<times> CacheEntry option" where
  "GenCache_Use c n process =
     (case map_of (entries c) n of
        None \<Rightarrow> (c, None)
      | Some e \<Rightarrow>
          (let e' = (case process of None \<Rightarrow> e | Some f \<Rightarrow> f e)
           in (c\<lparr>entries := (n, e') # AList.delete n (entries c)\<rparr>, Some e')))"

definition GenCache_Add ::
  "GenCache \<Rightarrow> CacheEntry \<Rightarrow> string \<Rightarrow> (CacheEntry \<Rightarrow> Operation \<times> CacheEntry) \<Rightarrow> GenCache" where
  "GenCache_Add c entry n process =
     (case map_of (entries c) n of
        Some old \<Rightarrow>
          (case process old of
             (AMEND, old') \<Rightarrow> c\<lparr>entries := (n, old') # AList.delete n (entries c)\<rparr>
           | (IGNORE, old') \<Rightarrow> c\<lparr>entries := AList.update n old' (entries c)\<rparr>)
      | None \<Rightarrow> c\<lparr>entries := take (cacheLimit c) ((n, entry) # entries c)\<rparr>)"

definition GenCache_Delete :: "GenCache \<Rightarrow> string \<Rightarrow> GenCache \<times> bool" where
  "GenCache_Delete c n =
     (case map_of (entries c) n of
        None \<Rightarrow> (c, False)
      | Some e \<Rightarrow> (c\<lparr>entries := AList.delete n (entries c)\<rparr>, True))"

subsection \<open>The collaborators of the cache\<close>

text \<open>
  A parsed statement (package algebra): a \<open>PREPARE\<close> statement with the statement it
  prepares, or a statement of another kind, given by its text.
\<close>

datatype algebra_Statement = algebra_Prepare algebra_Statement | algebra_Other string

text \<open>
  What prepareds.go calls in other packages is a field of the environment:
  \<^item> \<open>plan_env\<close>: what the operators of package plan call (above);
  \<^item> \<open>SplitKey\<close>, \<open>WhoAmI\<close>, \<open>GetRemoteDoc\<close>: \<open>distributed.RemoteAccess()\<close>; \<open>GetRemoteDoc host name\<close>
    is the \<open>"encoded_plan"\<close> string of the document handed to the callback, if any;
  \<^item> \<open>MetadataCheck\<close>, \<open>Verify\<close>: the methods of \<open>plan.Prepared\<close> that compare the plan
    with the datastore;
  \<^item> \<open>base64_DecodeString\<close>, \<open>base64_EncodeToString\<close>: \<open>base64.StdEncoding\<close>;
  \<^item> \<open>gzip_ReadAll\<close>: \<open>gzip.NewReader\<close> followed by \<open>ioutil.ReadAll\<close>; \<open>gzip_Write\<close>: the
    compression;
  \<^item> \<open>json_Unmarshal\<close>, \<open>json_Marshal\<close>: the JSON text of a document and back;
  \<^item> \<open>FirstFindText\<close>: \<open>json.FirstFind(bytes, "text")\<close> followed by \<open>json.Unmarshal\<close> into a string;
  \<^item> \<open>ParseStatement\<close>: \<open>n1ql.ParseStatement\<close>;
  \<^item> \<open>BuildPrepared stmt indexApiVersion featureControls\<close>: \<open>planner.BuildPrepared\<close> with the
    arguments that \<open>reprepare\<close> passes;
  \<^item> \<open>value_MarshalJSON\<close>: \<open>MarshalJSON\<close> of a value;
  \<^item> \<open>Now\<close>: \<open>time.Now()\<close>.
  \<open>None\<close> is an error return.
\<close>

record Env =
  plan_env :: PlanEnv
  SplitKey :: "string \<Rightarrow> string \<times> string"
  WhoAmI :: string
  GetRemoteDoc :: "string \<Rightarrow> string \<Rightarrow> string option"
  MetadataCheck :: "plan_Prepared \<Rightarrow> bool"
  Verify :: "plan_Prepared \<Rightarrow> bool"
  base64_DecodeString :: "string \<Rightarrow> string option"
  base64_EncodeToString :: "string \<Rightarrow> string"
  gzip_ReadAll :: "string \<Rightarrow> string option"
  gzip_Write :: "string \<Rightarrow> string"
  json_Unmarshal :: "string \<Rightarrow> json option"
  json_Marshal :: "json \<Rightarrow> string option"
  FirstFindText :: "string \<Rightarrow> string option"
  ParseStatement :: "string \<Rightarrow> algebra_Statement option"
  BuildPrepared :: "algebra_Statement \<Rightarrow> int \<Rightarrow> 64 word \<Rightarrow> plan_Prepared option"
  value_MarshalJSON :: "val \<Rightarrow> string option"
  Now :: nat

text \<open>
  The state that the operations of the cache change: the cache itself, what
  \<open>distributePrepared\<close> has sent to the peers (name and encoded plan), and the plans that
  \<open>Verify\<close> has been called on.
\<close>

record World =
  cache :: GenCache
  distributed :: "(string \<times> string) list"
  verified :: "plan_Prepared list"

text \<open>
  The errors of package errors that prepareds.go returns. \<open>TypeAssertionPanic\<close> is not one
  of them: it stands for the run-time panic of a type assertion \<open>x.(T)\<close> without the
  \<open>ok\<close> result on a value of another type. A panic is no \<open>err\<close> that the caller could test:
  it leaves every function on the way unchanged.
\<close>

datatype Error =
    PreparedNameError string
  | NoSuchPreparedError string
  | UnrecognizedPreparedError
  | PreparedDecodingError
  | EncodingNameMismatchError string
  | PreparedEncodingMismatchError string
  | ReprepareError
  | TypeAssertionPanic

definition distributePrepared :: "World \<Rightarrow> string \<Rightarrow> string \<Rightarrow> World" where
  "distributePrepared w name plan = w\<lparr>distributed := distributed w @ [(name, plan)]\<rparr>"

definition callVerify :: "Env \<Rightarrow> World \<Rightarrow> plan_Prepared \<Rightarrow> World \<times> bool" where
  "callVerify env w prepared = (w\<lparr>verified := verified w @ [prepared]\<rparr>, Verify env prepared)"

subsection \<open>The encoded plan\<close>

text \<open>
  Modelled from the spec: \<open>Prepared.MarshalJSON\<close>, \<open>Prepared.UnmarshalJSON\<close>,
  \<open>Prepared.BuildEncodedPlan\<close> and \<open>plan.NewPrepared\<close> (plan/prepared.go is not among the
  sources). The spec: EncodedPlan = base64(gzip(canonical-JSON(operator-tree plus
  header))); the top-level JSON object has a \<open>"#operator"\<close> discriminator naming the root
  operator; a fetched prepared is \<open>{name, text, encoded_plan, ...}\<close>. The header members
  are the fields of the plan; the operator tree is the member \<open>"operator"\<close>, decoded by
  \<open>MakeOperator\<close> on its \<open>"#operator"\<close> discriminator. \<open>plan.NewPrepared(nil, nil)\<close> has no
  operator. An \<open>UnmarshalJSON\<close> that fails leaves the new plan as \<open>NewPrepared\<close> made it.
\<close>

definition NewPrepared :: plan_Prepared where
  "NewPrepared =
     \<lparr> Name = '''', Text = '''', Type = '''', IndexApiVersion = 0, FeatureControls = 0,
       EncodedPlan = '''', Operator = None \<rparr>"

definition Prepared_MarshalBase :: "PlanEnv \<Rightarrow> plan_Prepared \<Rightarrow> json" where
  "Prepared_MarshalBase penv p =
     JObject [(''operator'', (case Operator p of
                                None \<Rightarrow> JNull
                              | Some op \<Rightarrow> Operator_MarshalBase penv op)),
              (''name'', JString (Name p)),
              (''text'', JString (Text p)),
              (''reqType'', JString (Type p)),
              (''indexApiVersion'', JNumber (IndexApiVersion p)),
              (''featureControls'', JNumber (uint (FeatureControls p)))]"

definition Prepared_MarshalJSON :: "Env \<Rightarrow> plan_Prepared \<Rightarrow> string option" where
  "Prepared_MarshalJSON env p = json_Marshal env (Prepared_MarshalBase (plan_env env) p)"

definition BuildEncodedPlan :: "Env \<Rightarrow> string \<Rightarrow> string" where
  "BuildEncodedPlan env json_bytes = base64_EncodeToString env (gzip_Write env json_bytes)"

definition Prepared_of_json :: "PlanEnv \<Rightarrow> json \<Rightarrow> plan_Prepared option" where
  "Prepared_of_json penv j =
     (case j of
        JObject fs \<Rightarrow>
          (case (string_field fs ''name'', string_field fs ''text'', string_field fs ''reqType'',
                 int_field fs ''indexApiVersion'', int_field fs ''featureControls'',
                 map_of fs ''operator'') of
             (Some n, Some t, Some ty, Some v, Some fc, Some raw) \<Rightarrow>
               (if fc < 0 \<or> 2 ^ 64 \<le> fc then None
                else
                  (case operator_name raw of
                     None \<Rightarrow> None
                   | Some k \<Rightarrow>
                       (case MakeOperator penv k raw of
                          None \<Rightarrow> None
                        | Some op \<Rightarrow>
                            Some \<lparr> Name = n, Text = t, Type = ty, IndexApiVersion = v,
                                   FeatureControls = word_of_int fc, EncodedPlan = '''',
                                   Operator = Some op \<rparr>)))
           | _ \<Rightarrow> None)
      | _ \<Rightarrow> None)"

definition Prepared_UnmarshalJSON :: "Env \<Rightarrow> string \<Rightarrow> plan_Prepared option" where
  "Prepared_UnmarshalJSON env bytes =
     (case json_Unmarshal env bytes of
        None \<Rightarrow> None
      | Some j \<Rightarrow> Prepared_of_json (plan_env env) j)"

subsection \<open>The operations of prepareds.go\<close>

definition OPT_TRACK :: "32 word" where "OPT_TRACK = 1"
definition OPT_REMOTE :: "32 word" where "OPT_REMOTE = 2"
definition OPT_VERIFY :: "32 word" where "OPT_VERIFY = 4"
definition OPT_METACHECK :: "32 word" where "OPT_METACHECK = 8"

text \<open>
  \<open>preparedCache.get\<close>. The guard \<open>name.Type() != value.STRING || !name.Truth()\<close> turns
  away every value that is not a non-empty string (the truth of a string value is that it
  is not empty).
\<close>

definition get :: "nat \<Rightarrow> GenCache \<Rightarrow> val \<Rightarrow> bool \<Rightarrow> GenCache \<times> CacheEntry option" where
  "get now c name track =
     (case name of
        stringValue n \<Rightarrow>
          (if n = '''' then (c, None)
           else if track then
             (case GenCache_Use c n None of
                (c', None) \<Rightarrow> (c', None)
              | (c', Some rv) \<Rightarrow>
                  (let rv' = rv\<lparr>Uses := Uses rv + 1, LastUse := now\<rparr>
                   in (c'\<lparr>entries := AList.update n rv' (entries c')\<rparr>, Some rv')))
           else GenCache_Get c n None)
      | _ \<Rightarrow> (c, None))"

text \<open>
  \<open>preparedCache.add\<close>. \<open>newCacheEntry\<close> is the entry it prepares first: the struct
  literal (fields not named there are zero) and the assignments under \<open>if track\<close>.
  The functions that its callers pass as \<open>process\<close> assign their
  result to the caller's variable \<open>added\<close>, which starts as \<open>true\<close>; \<open>add\<close> here returns
  that variable with the cache: the result of \<open>process\<close> on the entry found, \<open>True\<close> when
  there was none.
\<close>

definition newCacheEntry :: "nat \<Rightarrow> plan_Prepared \<Rightarrow> bool \<Rightarrow> bool \<Rightarrow> CacheEntry" where
  "newCacheEntry when prepared pop track =
     (let ce = \<lparr> Prepared = prepared, LastUse = 0, Uses = 0, ServiceTime = 0, RequestTime = 0,
                 MinServiceTime = MaxUint64, MinRequestTime = MaxUint64,
                 MaxServiceTime = 0, MaxRequestTime = 0, populated = pop \<rparr>
      in if track then ce\<lparr>Uses := 1, LastUse := when\<rparr> else ce)"

definition add ::
  "nat \<Rightarrow> GenCache \<Rightarrow> plan_Prepared \<Rightarrow> bool \<Rightarrow> bool \<Rightarrow> (CacheEntry \<Rightarrow> bool) option
     \<Rightarrow> GenCache \<times> bool" where
  "add when c prepared pop track process =
     (let ce = newCacheEntry when prepared pop track;
          cont = (\<lambda>oldEntry. case process of None \<Rightarrow> True | Some f \<Rightarrow> f oldEntry);
          amend = (\<lambda>oldEntry.
                     if cont oldEntry then
                       (AMEND,
                        (let e = oldEntry\<lparr>Prepared := prepared, populated := False\<rparr>
                         in if track then e\<lparr>Uses := Uses e + 1, LastUse := when\<rparr> else e))
                     else (IGNORE, oldEntry))
      in (GenCache_Add c ce (Name prepared) amend,
          (case map_of (entries c) (Name prepared) of
             None \<Rightarrow> True
           | Some oldEntry \<Rightarrow> cont oldEntry)))"

definition AddPrepared :: "Env \<Rightarrow> World \<Rightarrow> plan_Prepared \<Rightarrow> World \<times> Error option" where
  "AddPrepared env w prepared =
     (case add (Now env) (cache w) prepared False False
             (Some (\<lambda>ce. \<not> (Text (Prepared ce) \<noteq> Text prepared))) of
        (c', added) \<Rightarrow>
          if \<not> added then
            (w\<lparr>cache := c'\<rparr>, Some (PreparedNameError (''duplicate name: '' @ Name prepared)))
          else
            (distributePrepared (w\<lparr>cache := c'\<rparr>) (Name prepared) (EncodedPlan prepared), None))"

definition DeletePrepared :: "World \<Rightarrow> string \<Rightarrow> World \<times> Error option" where
  "DeletePrepared w name =
     (case GenCache_Delete (cache w) name of
        (c', True) \<Rightarrow> (w\<lparr>cache := c'\<rparr>, None)
      | (c', False) \<Rightarrow> (w\<lparr>cache := c'\<rparr>, Some (NoSuchPreparedError name)))"

text \<open>
  \<open>reprepare\<close>. The statement handed to \<open>planner.BuildPrepared\<close> is
  \<open>stmt.(*algebra.Prepare).Statement()\<close>: a type assertion without the \<open>ok\<close> result, which
  panics when the text parses to a statement that is not a \<open>PREPARE\<close>.
\<close>

definition reprepare :: "Env \<Rightarrow> plan_Prepared \<Rightarrow> Error + plan_Prepared" where
  "reprepare env prepared =
     (case ParseStatement env (Text prepared) of
        None \<Rightarrow> Inl ReprepareError
      | Some stmt \<Rightarrow>
          (case stmt of
             algebra_Other t \<Rightarrow> Inl TypeAssertionPanic
           | algebra_Prepare statement \<Rightarrow>
               (case BuildPrepared env statement (IndexApiVersion prepared)
                       (FeatureControls prepared) of
                  None \<Rightarrow> Inl ReprepareError
                | Some pl0 \<Rightarrow>
                    (let pl = pl0\<lparr> Name := Name prepared, Text := Text prepared,
                                   Type := Type prepared,
                                   IndexApiVersion := IndexApiVersion prepared,
                                   FeatureControls := FeatureControls prepared \<rparr>
                     in case Prepared_MarshalJSON env pl of
                          None \<Rightarrow> Inl ReprepareError
                        | Some json_bytes \<Rightarrow>
                            Inr (pl\<lparr>EncodedPlan := BuildEncodedPlan env json_bytes\<rparr>)))))"

text \<open>
  \<open>unmarshalPrepared\<close>. After a failed \<open>UnmarshalJSON\<close> it plans the statement again from
  the \<open>"text"\<close> member; \<open>pl, _ := reprepare(prepared, phaseTime)\<close> drops the error of
  \<open>reprepare\<close>, but not its panic.
\<close>

definition unmarshalPrepared :: "Env \<Rightarrow> string \<Rightarrow> Error + plan_Prepared" where
  "unmarshalPrepared env bytes =
     (case Prepared_UnmarshalJSON env bytes of
        Some prepared \<Rightarrow> Inr prepared
      | None \<Rightarrow>
          (case FirstFindText env bytes of
             None \<Rightarrow> Inl UnrecognizedPreparedError
           | Some stmt \<Rightarrow>
               (case reprepare env (NewPrepared\<lparr>Text := stmt\<rparr>) of
                  Inr pl \<Rightarrow> Inr pl
                | Inl e \<Rightarrow>
                    if e = TypeAssertionPanic then Inl TypeAssertionPanic
                    else Inl UnrecognizedPreparedError)))"

text \<open>
  \<open>DecodePrepared\<close>. In the function handed to \<open>add\<close>, \<open>oldEntry.Prepared != prepared\<close>
  compares pointers; \<open>prepared\<close> was allocated by this very call, so the comparison is
  true of every entry found and the test is the one on the statement texts. A panic of
  \<open>reprepare\<close> inside \<open>unmarshalPrepared\<close> is not wrapped into a decoding error.
\<close>

definition DecodePrepared ::
  "Env \<Rightarrow> World \<Rightarrow> string \<Rightarrow> string \<Rightarrow> bool \<Rightarrow> bool \<Rightarrow> World \<times> (Error + plan_Prepared)" where
  "DecodePrepared env w prepared_name prepared_stmt track distribute =
     (case base64_DecodeString env prepared_stmt of
        None \<Rightarrow> (w, Inl PreparedDecodingError)
      | Some decoded \<Rightarrow>
     (case gzip_ReadAll env decoded of
        None \<Rightarrow> (w, Inl PreparedDecodingError)
      | Some prepared_bytes \<Rightarrow>
     (case unmarshalPrepared env prepared_bytes of
        Inl e \<Rightarrow>
          if e = TypeAssertionPanic then (w, Inl TypeAssertionPanic)
          else (w, Inl PreparedDecodingError)
      | Inr prepared0 \<Rightarrow>
          (let prepared = prepared0\<lparr>EncodedPlan := prepared_stmt\<rparr> in
           if Name prepared \<noteq> '''' \<and> prepared_name \<noteq> '''' \<and> prepared_name \<noteq> Name prepared
           then (w, Inl (EncodingNameMismatchError prepared_name))
           else if Name prepared = '''' then (w, Inr prepared)
           else
             (case callVerify env w prepared of
                (w1, good) \<Rightarrow>
                  (case (if \<not> good then reprepare env prepared else Inr prepared) of
                     Inl prepErr \<Rightarrow> (w1, Inl prepErr)
                   | Inr prepared' \<Rightarrow>
                       (case add (Now env) (cache w1) prepared' good track
                               (Some (\<lambda>oldEntry.
                                  \<not> (Text (Prepared oldEntry) \<noteq> Text prepared'))) of
                          (c', added) \<Rightarrow>
                            (let w2 = w1\<lparr>cache := c'\<rparr> in
                             if added then
                               ((if distribute
                                 then distributePrepared w2 (Name prepared') prepared_stmt
                                 else w2),
                                Inr prepared')
                             else (w2, Inl (PreparedEncodingMismatchError prepared_name))))))))))"

text \<open>
  The branch of \<open>getPrepared\<close> for an entry that was found, with \<open>verify\<close> set; \<open>n\<close> is the
  name the entry \<open>ce\<close> is cached under.
\<close>

definition verifyEntry ::
  "Env \<Rightarrow> World \<Rightarrow> string \<Rightarrow> CacheEntry \<Rightarrow> bool \<Rightarrow> World \<times> (Error + plan_Prepared)" where
  "verifyEntry env w n ce metaCheck =
     (let prepared = Prepared ce;
          (w1, good) =
            (if populated ce then
               (let good = MetadataCheck env prepared
                in if \<not> good \<and> \<not> metaCheck then callVerify env w prepared else (w, good))
             else
               (case callVerify env w prepared of
                  (w', good) \<Rightarrow>
                    if good then
                      (w'\<lparr>cache := (cache w')
                            \<lparr>entries := AList.update n (ce\<lparr>populated := True\<rparr>)
                                          (entries (cache w'))\<rparr>\<rparr>, good)
                    else (w', good)))
      in if \<not> good \<and> \<not> metaCheck then
           (case reprepare env prepared of
              Inl err \<Rightarrow> (w1, Inl err)
            | Inr prepared' \<Rightarrow>
                (case AddPrepared env w1 prepared' of
                   (w2, Some err) \<Rightarrow> (w2, Inl err)
                 | (w2, None) \<Rightarrow> (w2, Inr prepared')))
         else (w1, Inr prepared))"

definition getPrepared ::
  "Env \<Rightarrow> World \<Rightarrow> val \<Rightarrow> 32 word \<Rightarrow> World \<times> (Error + plan_Prepared)" where
  "getPrepared env w prepared_stmt options =
     (let track = ((options AND OPT_TRACK) \<noteq> 0);
          remote = ((options AND OPT_REMOTE) \<noteq> 0);
          verify = ((options AND (OPT_VERIFY OR OPT_METACHECK)) \<noteq> 0);
          metaCheck = ((options AND OPT_METACHECK) \<noteq> 0)
      in case prepared_stmt of
           stringValue s \<Rightarrow>
             (case SplitKey env s of
                (host, name) \<Rightarrow>
                  (case get (Now env) (cache w) (stringValue name) track of
                     (c1, ce) \<Rightarrow>
                       (let w1 = w\<lparr>cache := c1\<rparr> in
                        case ce of
                          None \<Rightarrow>
                            (if remote \<and> host \<noteq> '''' \<and> host \<noteq> WhoAmI env then
                               (case GetRemoteDoc env host name of
                                  Some encoded_plan \<Rightarrow>
                                    DecodePrepared env w1 name encoded_plan False False
                                | None \<Rightarrow> (w1, Inl (NoSuchPreparedError name)))
                             else (w1, Inl (NoSuchPreparedError name)))
                        | Some e \<Rightarrow>
                            (if verify then verifyEntry env w1 name e metaCheck
                             else (w1, Inr (Prepared e))))))
         | objectValue fs \<Rightarrow>
             (case (case map_of fs ''name'' of
                      Some name_value \<Rightarrow> get (Now env) (cache w) name_value track
                    | None \<Rightarrow> (cache w, None)) of
                (c1, Some ce) \<Rightarrow> (w\<lparr>cache := c1\<rparr>, Inr (Prepared ce))
              | (c1, None) \<Rightarrow>
                  (case value_MarshalJSON env prepared_stmt of
                     None \<Rightarrow> (w\<lparr>cache := c1\<rparr>, Inl UnrecognizedPreparedError)
                   | Some prepared_bytes \<Rightarrow>
                       (w\<lparr>cache := c1\<rparr>, unmarshalPrepared env prepared_bytes)))
         | _ \<Rightarrow> (w, Inl UnrecognizedPreparedError))"

definition GetPrepared ::
  "Env \<Rightarrow> World \<Rightarrow> val \<Rightarrow> 32 word \<Rightarrow> World \<times> (Error + plan_Prepared)" where
  "GetPrepared env w prepared_stmt options = getPrepared env w prepared_stmt options"

definition RecordPreparedMetrics ::
  "World \<Rightarrow> plan_Prepared option \<Rightarrow> 64 word \<Rightarrow> 64 word \<Rightarrow> World" where
  "RecordPreparedMetrics w prepared requestTime serviceTime =
     (case prepared of
        None \<Rightarrow> w
      | Some p \<Rightarrow>
          (if Name p = '''' then w
           else w\<lparr>cache :=
                    fst (GenCache_Get (cache w) (Name p)
                           (Some (recordMetrics requestTime serviceTime)))\<rparr>))"

text \<open>A sequence of \<open>RecordPreparedMetrics\<close> calls, one after the other.\<close>

fun RecordAll :: "World \<Rightarrow> (plan_Prepared option \<times> 64 word \<times> 64 word) list \<Rightarrow> World" where
  "RecordAll w [] = w"
| "RecordAll w ((p, requestTime, serviceTime) # calls) =
     RecordAll (RecordPreparedMetrics w p requestTime serviceTime) calls"

subsection \<open>Example plans, caches and environments\<close>

text \<open>
  Concrete inputs on which the properties below are evaluated. In \<open>testPlanEnv\<close> an
  expression is an identifier, written as its name and parsed from it, the datastore knows
  the keyspaces of the namespace \<open>default\<close>, and \<open>MarshalKeyspace\<close> writes the namespace
  and the keyspace of the path.
\<close>

definition orders_ref :: KeyspaceRef where
  "orders_ref =
     \<lparr> ref_namespace = ''default'', ref_bucket = [], ref_scope = [], ref_keyspace = ''orders'',
       ref_as = [] \<rparr>"

definition testPlanEnv :: PlanEnv where
  "testPlanEnv =
     \<lparr> Stringer = (\<lambda>e. case e of Some (Identifier s) \<Rightarrow> s | _ \<Rightarrow> []),
       Expression_MarshalJSON = (\<lambda>e. case e of Identifier s \<Rightarrow> JString s | _ \<Rightarrow> JNull),
       parser_Parse = (\<lambda>s. Some (Identifier s)),
       getCost = (\<lambda>c. c), getCardinality = (\<lambda>c. c),
       GetKeyspace = (\<lambda>ns b s k. if ns = ''default''
                                   then Some (KeyspaceHandle (ns @ '':'' @ k)) else None),
       MarshalKeyspace = (\<lambda>r. case r of
                                 None \<Rightarrow> []
                               | Some r \<Rightarrow> [(''keyspace'', JString (ref_keyspace r)),
                                            (''namespace'', JString (ref_namespace r))]) \<rparr>"

text \<open>
  \<open>testEnv doc ok\<close> is a node without peers in which both codecs are the identity, the
  only JSON text is \<open>"doc"\<close>, standing for the document of the plan \<open>doc\<close>, the datastore
  answers \<open>ok\<close> to every check of a plan, and no statement can be planned again.
\<close>

definition plan1 :: plan_Prepared where
  "plan1 =
     \<lparr> Name = ''p1'', Text = ''PREPARE p1 AS DELETE FROM orders'', Type = ''DELETE'',
       IndexApiVersion = 0, FeatureControls = 0, EncodedPlan = ''doc'',
       Operator = Some (Parallel (SendDelete (KeyspaceHandle ''default:orders'')
                                    (Some orders_ref) ''orders'' None) (- 1)) \<rparr>"

definition plan2 :: plan_Prepared where
  "plan2 = plan1\<lparr>Text := ''PREPARE p1 AS DELETE FROM customers''\<rparr>"

definition plan0 :: plan_Prepared where
  "plan0 = plan1\<lparr>Name := []\<rparr>"

definition testEnv :: "plan_Prepared \<Rightarrow> bool \<Rightarrow> Env" where
  "testEnv doc ok =
     \<lparr> plan_env = testPlanEnv,
       SplitKey = (\<lambda>k. ([], k)), WhoAmI = [], GetRemoteDoc = (\<lambda>h n. None),
       MetadataCheck = (\<lambda>p. ok), Verify = (\<lambda>p. ok),
       base64_DecodeString = Some, base64_EncodeToString = (\<lambda>s. s),
       gzip_ReadAll = Some, gzip_Write = (\<lambda>s. s),
       json_Unmarshal = (\<lambda>s. if s = ''doc''
                                then Some (Prepared_MarshalBase testPlanEnv doc) else None),
       json_Marshal = (\<lambda>j. Some ''doc''),
       FirstFindText = (\<lambda>b. None), ParseStatement = (\<lambda>t. None),
       BuildPrepared = (\<lambda>t v f. None),
       value_MarshalJSON = (\<lambda>v. None), Now = 0 \<rparr>"

definition emptyWorld :: World where
  "emptyWorld = \<lparr> cache = \<lparr> entries = [], cacheLimit = 2 \<rparr>, distributed = [], verified = [] \<rparr>"

definition entry1 :: CacheEntry where
  "entry1 = (newCacheEntry 0 plan1 True False)\<lparr>MinServiceTime := 7, MaxServiceTime := 9,
                                                MinRequestTime := 8, MaxRequestTime := 8\<rparr>"

definition world1 :: World where
  "world1 = emptyWorld\<lparr>cache := \<lparr> entries = [(''p1'', entry1)], cacheLimit = 2 \<rparr>\<rparr>"

text \<open>
  The four extreme values of an entry only move outwards from \<open>ce\<close> to \<open>ce'\<close>: the
  minima do not grow and the maxima do not shrink.
\<close>

definition metrics_le :: "CacheEntry \<Rightarrow> CacheEntry \<Rightarrow> bool" where
  "metrics_le ce ce' \<longleftrightarrow>
     MinServiceTime ce' \<le> MinServiceTime ce \<and> MinRequestTime ce' \<le> MinRequestTime ce \<and>
     MaxServiceTime ce \<le> MaxServiceTime ce' \<and> MaxRequestTime ce \<le> MaxRequestTime ce'"

text \<open>
  The samples that a sequence of \<open>RecordPreparedMetrics\<close> calls holds for the name \<open>n\<close>:
  the request time and the service time of every call with a plan of that name, the
  name not being empty.
\<close>

fun samples ::
  "string \<Rightarrow> (plan_Prepared option \<times> 64 word \<times> 64 word) list \<Rightarrow> (64 word \<times> 64 word) list" where
  "samples n [] = []"
| "samples n ((p, requestTime, serviceTime) # calls) =
     (if n \<noteq> [] \<and> map_option Name p = Some n
      then (requestTime, serviceTime) # samples n calls
      else samples n calls)"

subsection \<open>An environment with working codecs\<close>











fun read_nat :: "nat \<Rightarrow> string \<Rightarrow> nat \<times> string" where
  "read_nat acc [] = (acc, [])"
| "read_nat acc (c # cs) =
     (if 48 \<le> (of_char c :: nat) \<and> (of_char c :: nat) \<le> 57
      then read_nat (10 * acc + (of_char c - 48)) cs
      else (acc, c # cs))"

definition read_int :: "string \<Rightarrow> (int \<times> string) option" where
  "read_int s =
     (case s of
        [] \<Rightarrow> None
      | c # r \<Rightarrow>
          (if c = CHR ''-'' then
             (case read_nat 0 r of (n, r') \<Rightarrow> if r' = r then None else Some (- int n, r'))
           else
             (case read_nat 0 s of (n, r') \<Rightarrow> if r' = s then None else Some (int n, r'))))"

definition read_number :: "string \<Rightarrow> (json \<times> string) option" where
  "read_number s =
     (case read_int s of
        None \<Rightarrow> None
      | Some (m, r) \<Rightarrow>
          (case r of
             [] \<Rightarrow> Some (JNumber m, r)
           | c # r' \<Rightarrow>
               (if c = CHR ''e'' then
                  (case read_int r' of
                     None \<Rightarrow> None
                   | Some (e, r'') \<Rightarrow> Some (JFloat (Finite m e), r''))
                else Some (JNumber m, r))))"

fun read_string :: "string \<Rightarrow> (string \<times> string) option" where
  "read_string [] = None"
| "read_string (c # cs) =
     (if c = CHR 0x22 then Some ([], cs)
      else if c = CHR 0x5C then
        (case cs of
           [] \<Rightarrow> None
         | d # ds \<Rightarrow> (case read_string ds of None \<Rightarrow> None | Some (s, r) \<Rightarrow> Some (d # s, r)))
      else (case read_string cs of None \<Rightarrow> None | Some (s, r) \<Rightarrow> Some (c # s, r)))"

fun read_value :: "nat \<Rightarrow> string \<Rightarrow> (json \<times> string) option"
  and read_elements :: "nat \<Rightarrow> string \<Rightarrow> (json list \<times> string) option"
  and read_members :: "nat \<Rightarrow> string \<Rightarrow> ((string \<times> json) list \<times> string) option" where
  "read_value 0 s = None"
| "read_value (Suc n) s =
     (if take 4 s = ''null'' then Some (JNull, drop 4 s)
      else if take 4 s = ''true'' then Some (JBool True, drop 4 s)
      else if take 5 s = ''false'' then Some (JBool False, drop 5 s)
      else if take 1 s = [CHR 0x22] then
        (case read_string (drop 1 s) of None \<Rightarrow> None | Some (t, r) \<Rightarrow> Some (JString t, r))
      else if take 2 s = ''[]'' then Some (JArray [], drop 2 s)
      else if take 1 s = ''['' then
        (case read_elements n (drop 1 s) of None \<Rightarrow> None | Some (xs, r) \<Rightarrow> Some (JArray xs, r))
      else if take 2 s = ''{}'' then Some (JObject [], drop 2 s)
      else if take 1 s = ''{'' then
        (case read_members n (drop 1 s) of None \<Rightarrow> None | Some (fs, r) \<Rightarrow> Some (JObject fs, r))
      else read_number s)"
| "read_elements 0 s = None"
| "read_elements (Suc n) s =
     (case read_value n s of
        None \<Rightarrow> None
      | Some (v, r) \<Rightarrow>
          (if take 1 r = '']'' then Some ([v], drop 1 r)
           else if take 1 r = '','' then
             (case read_elements n (drop 1 r) of
                None \<Rightarrow> None
              | Some (vs, r') \<Rightarrow> Some (v # vs, r'))
           else None))"
| "read_members 0 s = None"
| "read_members (Suc n) s =
     (if take 1 s = [CHR 0x22] then
        (case read_string (drop 1 s) of
           None \<Rightarrow> None
         | Some (k, r) \<Rightarrow>
             (if take 1 r = '':'' then
                (case read_value n (drop 1 r) of
                   None \<Rightarrow> None
                 | Some (v, r') \<Rightarrow>
                     (if take 1 r' = ''}'' then Some ([(k, v)], drop 1 r')
                      else if take 1 r' = '','' then
                        (case read_members n (drop 1 r') of
                           None \<Rightarrow> None
                         | Some (fs, r'') \<Rightarrow> Some ((k, v) # fs, r''))
                      else None))
              else None))
      else None)"






section \<open>Conditional functions for numbers (expression/func_cond_num.go)\<close>

text \<open>
  An operand is given by what its \<open>Evaluate\<close> returns on the item: a value, or an error
  (\<open>Inl\<close> with its message). \<open>Evaluate\<close> of the function goes through the operands from
  left to right, evaluates each one and returns the first error at once.
\<close>

definition IsInf :: "float64 \<Rightarrow> bool" where
  "IsInf f = (f = PosInf \<or> f = NegInf)"

definition IsNaN :: "float64 \<Rightarrow> bool" where
  "IsNaN f = (f = NaN)"

text \<open>\<open>a.Actual().(float64)\<close> of a value of type NUMBER.\<close>

fun Actual_float64 :: "val \<Rightarrow> float64" where
  "Actual_float64 (floatValue f) = f"
| "Actual_float64 v = NaN"

text \<open>
  The loop of \<open>IfInf.Evaluate\<close>, with its variables \<open>null\<close>, \<open>missing\<close> and \<open>rv\<close>
  (\<open>None\<close> for \<open>nil\<close>), followed by the three returns after the loop.
\<close>

fun IfInf_loop :: "(string + val) list \<Rightarrow> bool \<Rightarrow> bool \<Rightarrow> val option \<Rightarrow> string + val" where
  "IfInf_loop [] null missing rv =
     (case rv of
        Some v \<Rightarrow> Inr v
      | None \<Rightarrow> if missing then Inr MISSING_VALUE else Inr NULL_VALUE)"
| "IfInf_loop (operand # operands) null missing rv =
     (case operand of
        Inl err \<Rightarrow> Inl err
      | Inr a \<Rightarrow>
          if TypeOf a = MISSING then
            IfInf_loop operands null (if \<not> null then True else missing) rv
          else if TypeOf a \<noteq> NUMBER then IfInf_loop operands True missing rv
          else if \<not> null \<and> rv = None then
            (let f = Actual_float64 a
             in if \<not> IsInf f then IfInf_loop operands null missing (Some (floatValue f))
                else IfInf_loop operands null missing rv)
          else IfInf_loop operands null missing rv)"

definition IfInf_Evaluate :: "(string + val) list \<Rightarrow> string + val" where
  "IfInf_Evaluate operands = IfInf_loop operands False False None"

text \<open>
  \<open>IfNaN.Evaluate\<close> and \<open>IfNaNOrInf.Evaluate\<close> are one loop with two tests of the number;
  they have no variable \<open>missing\<close> and end in \<open>rv\<close> or \<open>NULL_VALUE\<close>.
\<close>

fun IfNaN_loop ::
  "(float64 \<Rightarrow> bool) \<Rightarrow> (string + val) list \<Rightarrow> bool \<Rightarrow> val option \<Rightarrow> string + val" where
  "IfNaN_loop good [] null rv =
     (case rv of
        Some v \<Rightarrow> Inr v
      | None \<Rightarrow> Inr NULL_VALUE)"
| "IfNaN_loop good (operand # operands) null rv =
     (case operand of
        Inl err \<Rightarrow> Inl err
      | Inr a \<Rightarrow>
          if TypeOf a = MISSING then IfNaN_loop good operands null rv
          else if TypeOf a \<noteq> NUMBER then IfNaN_loop good operands True rv
          else if \<not> null \<and> rv = None then
            (let f = Actual_float64 a
             in if good f then IfNaN_loop good operands null (Some (floatValue f))
                else IfNaN_loop good operands null rv)
          else IfNaN_loop good operands null rv)"

definition IfNaN_Evaluate :: "(string + val) list \<Rightarrow> string + val" where
  "IfNaN_Evaluate operands = IfNaN_loop (\<lambda>f. \<not> IsNaN f) operands False None"

definition IfNaNOrInf_Evaluate :: "(string + val) list \<Rightarrow> string + val" where
  "IfNaNOrInf_Evaluate operands =
     IfNaN_loop (\<lambda>f. \<not> IsInf f \<and> \<not> IsNaN f) operands False None"

text \<open>
  For the statement of what the functions return: the arguments in front of the first one
  that is neither MISSING nor a NUMBER, and the first NUMBER among them that the test
  \<open>good\<close> accepts.
\<close>

definition scanned :: "val list \<Rightarrow> val list" where
  "scanned args = takeWhile (\<lambda>a. TypeOf a = MISSING \<or> TypeOf a = NUMBER) args"

definition first_number :: "(float64 \<Rightarrow> bool) \<Rightarrow> val list \<Rightarrow> val option" where
  "first_number good args =
     find (\<lambda>a. TypeOf a = NUMBER \<and> good (Actual_float64 a)) args"

section \<open>The planner\<close>

subsection \<open>Sargability of a less-than predicate (planner/sarg_lt.go)\<close>

datatype Inclusion = NEITHER | LOW | HIGH | BOTH

text \<open>\<open>plan.Span\<close> with its \<open>Range\<close>; an \<open>Expressions\<close> that is \<open>nil\<close> is the empty list.\<close>

record Span =
  Low :: "Expression list"
  High :: "Expression list"
  Inclusion :: Inclusion
  Exact :: bool

text \<open>
  What \<open>VisitLT\<close> uses from elsewhere: the methods \<open>EquivalentTo\<close>, \<open>DependsOn\<close> and
  \<open>Static\<close> of expressions (\<open>Static\<close> is \<open>None\<close> where the source has \<open>nil\<close>), \<open>SubsetOf\<close>,
  and the sentinels \<open>_NULL_EXPRS\<close>, \<open>_SELF_SPANS\<close> and \<open>_VALUED_SPANS\<close> of package planner.
\<close>

record Sarg =
  EquivalentTo :: "Expression \<Rightarrow> Expression \<Rightarrow> bool"
  DependsOn :: "Expression \<Rightarrow> Expression \<Rightarrow> bool"
  Static :: "Expression \<Rightarrow> Expression option"
  SubsetOf :: "Expression \<Rightarrow> Expression \<Rightarrow> bool"
  NULL_EXPRS :: "Expression list"
  SELF_SPANS :: "Span list"
  VALUED_SPANS :: "Span list"

text \<open>
  \<open>sarg.VisitLT\<close> on the predicate \<open>LT first second\<close> for the index key \<open>key\<close>. The result
  \<open>None\<close> is \<open>nil\<close>. \<open>exprs\<close> has one element, the static form of the bound; the test
  \<open>len(exprs) == 0 || exprs[0] == nil\<close> is the test of that element.
\<close>

definition VisitLT :: "Sarg \<Rightarrow> Expression \<Rightarrow> Expression \<Rightarrow> Expression \<Rightarrow> Span list option" where
  "VisitLT this key first second =
     (let pred = LT first second;
          span = \<lparr> Low = [], High = [], Inclusion = NEITHER, Exact = False \<rparr>
      in if SubsetOf this pred key then Some (SELF_SPANS this)
         else if EquivalentTo this first key then
           (case Static this second of
              None \<Rightarrow> Some (VALUED_SPANS this)
            | Some e \<Rightarrow>
                Some [span\<lparr> High := [e], Low := NULL_EXPRS this,
                            Exact := True, Inclusion := NEITHER \<rparr>])
         else if EquivalentTo this second key then
           (case Static this first of
              None \<Rightarrow> Some (VALUED_SPANS this)
            | Some e \<Rightarrow> Some [span\<lparr> Low := [e], Exact := True, Inclusion := NEITHER \<rparr>])
         else if DependsOn this pred key then Some (VALUED_SPANS this)
         else None)"

text \<open>
  An instance for evaluation: equivalence is equality of the trees, an expression depends
  on the expressions that occur in it, the constants are static, an expression is a subset
  of itself, and the sentinels are spans over the non-null values.
\<close>

fun occurs_in :: "Expression \<Rightarrow> Expression \<Rightarrow> bool" where
  "occurs_in k (LT a b) = (k = LT a b \<or> occurs_in k a \<or> occurs_in k b)"
| "occurs_in k (Function f xs) = (k = Function f xs \<or> (\<exists>x \<in> set xs. occurs_in k x))"
| "occurs_in k e = (k = e)"

fun static_form :: "Expression \<Rightarrow> Expression option" where
  "static_form (Constant v) = Some (Constant v)"
| "static_form e = None"

definition testSarg :: Sarg where
  "testSarg =
     \<lparr> EquivalentTo = (\<lambda>a b. a = b), DependsOn = (\<lambda>e k. occurs_in k e),
       Static = static_form, SubsetOf = (\<lambda>a b. a = b),
       NULL_EXPRS = [Constant NULL_VALUE],
       SELF_SPANS = [\<lparr> Low = [Constant NULL_VALUE], High = [], Inclusion = LOW, Exact = True \<rparr>],
       VALUED_SPANS = [\<lparr> Low = [Constant NULL_VALUE], High = [], Inclusion = NEITHER,
                         Exact = False \<rparr>] \<rparr>"

subsection \<open>The primary index of a keyspace (planner/build_scan_primary.go)\<close>

text \<open>
  \<open>datastore.IndexState\<close>; the code compares the state of an index with \<open>ONLINE\<close>.
\<close>

datatype IndexState = DEFERRED | BUILDING | PENDING | ONLINE | OFFLINE

text \<open>
  An index as \<open>buildPrimaryIndex\<close> sees it: \<open>Name()\<close>, \<open>IsPrimary()\<close>, whether the type
  assertion \<open>index.(datastore.PrimaryIndex)\<close> succeeds, and what \<open>State()\<close> returns (the
  state, or an error with its message). An indexer is what its \<open>PrimaryIndexes()\<close> returns,
  a keyspace what its \<open>Indexers()\<close> returns.
\<close>

record Index =
  IndexName :: string
  IsPrimary :: bool
  castsToPrimary :: bool
  State :: "string + IndexState"

type_synonym Indexer = "string + Index list"

type_synonym Keyspace = "string + Indexer list"

text \<open>
  The two nested loops over the indexers and their primary indexes. The loop variable is
  the result parameter \<open>primary\<close> itself (\<open>for _, primary = range primaries\<close>), so it keeps
  the last index looked at. \<open>Inl\<close> is a return from inside the loop, \<open>Inr\<close> the value of
  \<open>primary\<close> when the loop has run through.
\<close>

fun primariesLoop ::
  "Index list \<Rightarrow> Index option \<Rightarrow> (Index option \<times> string option) + Index option" where
  "primariesLoop [] primary = Inr primary"
| "primariesLoop (p # ps) primary =
     (case State p of
        Inl er \<Rightarrow> Inl (None, Some er)
      | Inr state \<Rightarrow>
          if state = ONLINE then Inl (Some p, None) else primariesLoop ps (Some p))"

fun indexersLoop ::
  "Indexer list \<Rightarrow> Index option \<Rightarrow> (Index option \<times> string option) + Index option" where
  "indexersLoop [] primary = Inr primary"
| "indexersLoop (indexer # indexers) primary =
     (case indexer of
        Inl er \<Rightarrow> Inl (None, Some er)
      | Inr primaries \<Rightarrow>
          (case primariesLoop primaries primary of
             Inl r \<Rightarrow> Inl r
           | Inr primary' \<Rightarrow> indexersLoop indexers primary'))"

text \<open>The loop over the hinted indexes: it returns at the first one that is primary.\<close>

fun hintsLoop :: "Index list \<Rightarrow> (Index option \<times> string option) option" where
  "hintsLoop [] = None"
| "hintsLoop (index # indexes) =
     (if \<not> IsPrimary index then hintsLoop indexes
      else if castsToPrimary index then Some (Some index, None)
      else Some (None, Some (''Unable to cast index '' @ IndexName index @ '' to primary index'')))"

definition no_index_message :: "string \<Rightarrow> string" where
  "no_index_message path =
     ''No index available on keyspace '' @ path @
     '' that matches your query. Use CREATE PRIMARY INDEX ON '' @ path @
     '' to create a primary index, or check that your expected index is online.''"

text \<open>
  \<open>buildPrimaryIndex\<close>; \<open>path\<close> is \<open>node.PathString()\<close>. The result is the pair
  \<open>(primary, err)\<close>.
\<close>

definition buildPrimaryIndex ::
  "Keyspace \<Rightarrow> Index list \<Rightarrow> string \<Rightarrow> bool \<Rightarrow> Index option \<times> string option" where
  "buildPrimaryIndex keyspace indexes path force =
     (case hintsLoop indexes of
        Some r \<Rightarrow> r
      | None \<Rightarrow>
          if force then (None, None)
          else
            (case keyspace of
               Inl er \<Rightarrow> (None, Some er)
             | Inr indexers \<Rightarrow>
                 (case indexersLoop indexers None of
                    Inl r \<Rightarrow> r
                  | Inr None \<Rightarrow> (None, Some (no_index_message path))
                  | Inr (Some primary) \<Rightarrow>
                      (None, Some (''Primary index '' @ IndexName primary @ '' not online.'')))))"

text \<open>All the primary indexes of the indexers, in the order of the loops.\<close>

fun all_primaries :: "Indexer list \<Rightarrow> Index list" where
  "all_primaries [] = []"
| "all_primaries (Inl er # indexers) = all_primaries indexers"
| "all_primaries (Inr primaries # indexers) = primaries @ all_primaries indexers"

definition offlinePrimary :: Index where
  "offlinePrimary =
     \<lparr> IndexName = ''#primary'', IsPrimary = True, castsToPrimary = True, State = Inr OFFLINE \<rparr>"

section \<open>The intersect scan (package execution)\<close>

text \<open>
  An annotated value: the value, its attachment \<open>"meta"\<close> (\<open>None\<close> when the attachment is
  missing or is not a map), and the bit of the child scan that produced it.
\<close>

record AnnotatedValue =
  Value :: val
  Meta :: "(string \<times> val) list option"
  Bit :: "8 word"

text \<open>The primary key of an item: the string under \<open>"id"\<close> of its \<open>"meta"\<close> attachment.\<close>

definition keyOf :: "AnnotatedValue \<Rightarrow> string option" where
  "keyOf item =
     (case Meta item of
        None \<Rightarrow> None
      | Some meta \<Rightarrow>
          (case map_of meta ''id'' of
             Some (stringValue key) \<Rightarrow> Some key
           | _ \<Rightarrow> None))"

text \<open>
  The state of the operator that \<open>RunOnce\<close> works on: the two maps (\<open>values_map\<close> is
  the field \<open>values\<close>), the counter \<open>sent\<close>,
  the operator's own bit (\<open>scan_bit\<close>), and what it has done to the outside: the items sent on
  (\<open>emitted\<close>), the
  number of errors reported to the context, and whether the children have been told to
  stop. The maps are lists of pairs read with \<open>map_of\<close>; Go leaves the order in which
  \<open>range\<close> goes through a map open, here it is the order of the list.

  Modelled from the spec: \<open>base.sendItem\<close> and \<open>base.getItemChildren\<close> (execution/base.go is
  not among the sources). \<open>sendItem\<close> hands the item to the consumer and returns false once
  the operator has been stopped; \<open>room\<close> is the number of items the consumer takes before
  that happens (\<open>None\<close>: it is never stopped). \<open>getItemChildren\<close> returns an item of a
  child, or the bit of a child that has terminated, or that the channel is closed, or that
  the operator has been stopped: an \<open>Event\<close>. The children run concurrently, so the events
  reach \<open>RunOnce\<close> in an order that is an input of the model.
\<close>

record IntersectScan =
  values_map :: "(string \<times> AnnotatedValue) list"
  bits :: "(string \<times> 64 word) list"
  sent :: int
  scan_bit :: "8 word"
  emitted :: "AnnotatedValue list"
  room :: "nat option"
  errors :: nat
  notified :: bool

datatype Event = Item AnnotatedValue | ChildDone nat | Stop | Closed

definition sendItem :: "IntersectScan \<Rightarrow> AnnotatedValue \<Rightarrow> IntersectScan \<times> bool" where
  "sendItem this item =
     (case room this of
        None \<Rightarrow> (this\<lparr>emitted := emitted this @ [item]\<rparr>, True)
      | Some 0 \<Rightarrow> (this, False)
      | Some (Suc r) \<Rightarrow> (this\<lparr>emitted := emitted this @ [item], room := Some r\<rparr>, True))"

text \<open>
  \<open>processKey\<close>. \<open>int64(0x01) << item.Bit()\<close> is \<open>push_bit\<close> on a 64-bit word: a shift by 64
  or more gives 0.
\<close>

definition processKey ::
  "IntersectScan \<Rightarrow> AnnotatedValue \<Rightarrow> 64 word \<Rightarrow> int \<Rightarrow> IntersectScan \<times> bool" where
  "processKey this item fullBits limit =
     (case keyOf item of
        None \<Rightarrow> (this\<lparr>errors := errors this + 1\<rparr>, False)
      | Some key \<Rightarrow>
          (let bits0 = (case map_of (bits this) key of None \<Rightarrow> 0 | Some b \<Rightarrow> b);
               this1 = (if bits0 = 0
                        then this\<lparr>values_map := AList.update key item (values_map this)\<rparr>
                        else this);
               bits1 = bits0 OR push_bit (unat (Bit item)) 1
           in if (bits1 AND fullBits) XOR fullBits = 0 then
                (let this2 = this1\<lparr>values_map := AList.delete key (values_map this1),
                                   bits := AList.delete key (bits this1)\<rparr>;
                     this3 = (if limit > 0 then this2\<lparr>sent := sent this2 + 1\<rparr> else this2)
                 in case sendItem this3 (item\<lparr>Bit := scan_bit this3\<rparr>) of
                      (this4, ok) \<Rightarrow> (this4, ok \<and> (limit \<le> 0 \<or> sent this4 < limit)))
              else (this1\<lparr>bits := AList.update key bits1 (bits this1)\<rparr>, True)))"

text \<open>
  \<open>sendItems\<close>: the loop over \<open>this.bits\<close>. An entry of \<open>bits\<close> without an entry of \<open>values\<close>
  would make \<open>item.SetBit\<close> panic; the panic ends \<open>RunOnce\<close> in \<open>context.Recover\<close>.
\<close>

fun sendItems_loop :: "(string \<times> 64 word) list \<Rightarrow> 64 word \<Rightarrow> IntersectScan \<Rightarrow> IntersectScan" where
  "sendItems_loop [] childBits this = this"
| "sendItems_loop ((key, b) # rest) childBits this =
     (if (b AND childBits) XOR childBits = 0 then
        (case map_of (values_map this) key of
           None \<Rightarrow> this\<lparr>errors := errors this + 1\<rparr>
         | Some item \<Rightarrow>
             (case sendItem this (item\<lparr>Bit := scan_bit this\<rparr>) of
                (this', ok) \<Rightarrow> if \<not> ok then this' else sendItems_loop rest childBits this'))
      else sendItems_loop rest childBits this)"

definition sendItems :: "IntersectScan \<Rightarrow> 64 word \<Rightarrow> IntersectScan" where
  "sendItems this childBits =
     (if childBits = 0 then this else sendItems_loop (bits this) childBits this)"

text \<open>
  The value of \<open>fullBits\<close>: \<open>for i := range this.scans { fullBits |= int64(0x01) << uint8(i) }\<close>.
\<close>

definition fullBitsOf :: "nat \<Rightarrow> 64 word" where
  "fullBitsOf nscans =
     fold (\<lambda>i fb. fb OR push_bit (unat (word_of_nat i :: 8 word)) 1) [0..<nscans] 0"

text \<open>
  The loop of \<open>RunOnce\<close>, on the events still to come, with the variables \<open>n\<close> and
  \<open>childBits\<close>. It ends as \<open>Finished stopped ok\<close>, or it is \<open>Waiting\<close> for the next event
  when the events given have been used up.
\<close>

datatype Outcome = Waiting | Finished bool bool

fun receive ::
  "int \<Rightarrow> 64 word \<Rightarrow> int \<Rightarrow> Event list \<Rightarrow> IntersectScan \<Rightarrow> int \<Rightarrow> 64 word
     \<Rightarrow> IntersectScan \<times> 64 word \<times> Outcome" where
  "receive nscans fullBits limit [] this n childBits = (this, childBits, Waiting)"
| "receive nscans fullBits limit (Stop # events) this n childBits =
     ((if n = nscans then this\<lparr>notified := True\<rparr> else this), childBits, Finished True True)"
| "receive nscans fullBits limit (ChildDone childBit # events) this n childBits =
     (if n = nscans then
        receive nscans fullBits limit events (this\<lparr>notified := True\<rparr>) (n - 1)
          (childBits OR push_bit childBit 1)
      else receive nscans fullBits limit events this (n - 1) childBits)"
| "receive nscans fullBits limit (Item item # events) this n childBits =
     (case processKey this item fullBits limit of
        (this', ok) \<Rightarrow>
          if ok then receive nscans fullBits limit events this' n childBits
          else (this', childBits, Finished False False))"
| "receive nscans fullBits limit (Closed # events) this n childBits =
     (this, childBits, Finished False True)"

text \<open>
  The operator as \<open>NewIntersectScan\<close> makes it and as \<open>RunOnce\<close> starts on it, with empty
  maps from the pools.
\<close>

definition NewIntersectScan :: "8 word \<Rightarrow> nat option \<Rightarrow> IntersectScan" where
  "NewIntersectScan b r =
     \<lparr> values_map = [], bits = [], sent = 0, scan_bit = b, emitted = [], room = r, errors = 0,
       notified = False \<rparr>"

text \<open>
  \<open>RunOnce\<close> for \<open>nscans\<close> child scans; \<open>limit\<close> is what \<open>getLimit\<close> returns. When it
  returns, the maps are dropped.
\<close>

definition RunOnce :: "nat \<Rightarrow> int \<Rightarrow> bool \<Rightarrow> Event list \<Rightarrow> IntersectScan \<Rightarrow> IntersectScan" where
  "RunOnce nscans limit active events this =
     (if \<not> active \<or> nscans = 0 then this
      else
        (case receive (int nscans) (fullBitsOf nscans) limit events this (int nscans) 0 of
           (this1, childBits, Finished stopped ok) \<Rightarrow>
             (let this2 =
                (if \<not> stopped \<and> ok \<and> childBits \<noteq> 0 \<and> (limit \<le> 0 \<or> sent this1 < limit)
                 then sendItems this1 childBits else this1)
              in this2\<lparr>values_map := [], bits := []\<rparr>)
         | (this1, childBits, Waiting) \<Rightarrow> this1))"

text \<open>
  For the statements: an item with key \<open>k\<close> produced by child \<open>i\<close> is among the events;
  and the bit of the child that terminated first.
\<close>

definition received_from :: "Event list \<Rightarrow> string \<Rightarrow> nat \<Rightarrow> bool" where
  "received_from events k i =
     (\<exists>item \<in> set events. case item of
         Item it \<Rightarrow> keyOf it = Some k \<and> unat (Bit it) = i
       | _ \<Rightarrow> False)"

fun first_done :: "Event list \<Rightarrow> nat option" where
  "first_done [] = None"
| "first_done (ChildDone c # events) = Some c"
| "first_done (ev # events) = first_done events"

definition scanItem :: "string \<Rightarrow> nat \<Rightarrow> AnnotatedValue" where
  "scanItem key producer =
     \<lparr> Value = NULL_VALUE, Meta = Some [(''id'', stringValue key)], Bit = word_of_nat producer \<rparr>"

text \<open>
  What holds of the operator after the events \<open>seen\<close>, for \<open>N\<close> child scans: a bit set for
  a key stands for an item received; the value kept for a key has that key; an item sent
  on has the operator's bit and a key received from all children; and under a limit the
  items sent on are counted by \<open>sent\<close>, which stays within the limit.
\<close>

definition inv :: "nat \<Rightarrow> int \<Rightarrow> 8 word \<Rightarrow> Event list \<Rightarrow> IntersectScan \<Rightarrow> bool" where
  "inv N limit b seen this \<longleftrightarrow>
     scan_bit this = b
     \<and> distinct (map fst (bits this))
     \<and> (\<forall>k w i. map_of (bits this) k = Some w \<longrightarrow> bit w i \<longrightarrow> received_from seen k i)
     \<and> (\<forall>k it. map_of (values_map this) k = Some it \<longrightarrow> keyOf it = Some k)
     \<and> (\<forall>x \<in> set (emitted this).
           Bit x = b \<and> (\<exists>k. keyOf x = Some k \<and> (\<forall>i<N. received_from seen k i)))
     \<and> (0 < limit \<longrightarrow> int (length (emitted this)) \<le> sent this \<and> sent this \<le> limit)"

text \<open>
  Nothing received is lost: a key received from child \<open>i\<close> has been sent on or is
  pending with the bit of that child, and every pending key has its value.
\<close>

definition covered :: "Event list \<Rightarrow> IntersectScan \<Rightarrow> bool" where
  "covered seen this \<longleftrightarrow>
     (\<forall>k w. map_of (bits this) k = Some w \<longrightarrow> (\<exists>it. map_of (values_map this) k = Some it))
     \<and> (\<forall>k i. i < 64 \<longrightarrow> received_from seen k i \<longrightarrow>
           (\<exists>x \<in> set (emitted this). keyOf x = Some k)
           \<or> (\<exists>w. map_of (bits this) k = Some w \<and> bit w i))"

section \<open>Properties\<close>

subsection \<open>Auxiliary facts\<close>

lemma operator_round_trip:
  "operator_ok env op \<Longrightarrow>
   \<exists>k. operator_name (Operator_MarshalBase env op) = Some k
      \<and> MakeOperator env k (Operator_MarshalBase env op) = Some (reloaded env op)"
proof (induction op)
  case (Parallel c mp)
  then obtain k where k: "operator_name (Operator_MarshalBase env c) = Some k"
    "MakeOperator env k (Operator_MarshalBase env c) = Some (reloaded env c)" by auto
  have n: "operator_name (Operator_MarshalBase env (Parallel c mp)) = Some ''Parallel''"
    by (simp add: operator_name_def)
  have "MakeOperator env ''Parallel'' (Operator_MarshalBase env (Parallel c mp))
          = Some (reloaded env (Parallel c mp))"
    by (subst MakeOperator.simps) (simp add: int_field_def k)
  with n show ?case by blast
next
  case (NLNest outer al onclause hintError cost cardinality c)
  then obtain k where k: "operator_name (Operator_MarshalBase env c) = Some k"
    "MakeOperator env k (Operator_MarshalBase env c) = Some (reloaded env c)" by auto
  from NLNest.prems have p: "parsed env (Stringer env onclause) = Some onclause"
    by (simp add: expression_ok_def)
  have n: "operator_name (Operator_MarshalBase env (NLNest outer al onclause hintError cost cardinality c))
             = Some ''NestedLoopNest''"
    by (simp add: operator_name_def)
  have "MakeOperator env ''NestedLoopNest''
          (Operator_MarshalBase env (NLNest outer al onclause hintError cost cardinality c))
          = Some (reloaded env (NLNest outer al onclause hintError cost cardinality c))"
    by (subst MakeOperator.simps)
       (simp add: string_field_def bool_field_def float_field_def k p)
  with n show ?case by blast
next
  case (SendDelete keyspace ksref al lim)
  define m where "m = MarshalKeyspace env ksref"
  from SendDelete obtain ns b s ks where
    f: "string_field m ''namespace'' = Some ns" "string_field m ''bucket'' = Some b"
       "string_field m ''scope'' = Some s" "string_field m ''keyspace'' = Some ks"
    and g: "GetKeyspace env ns b s ks = Some keyspace"
    and o: "map_of m ''#operator'' = None" and l: "map_of m ''limit'' = None"
    by (auto simp: m_def Let_def split: option.splits)
  define pre where "pre = (case lim of None \<Rightarrow> [] | Some l \<Rightarrow> [(''limit'', Expression_MarshalJSON env l)])
                           @ [(''alias'', JString al)]"
  have body: "Operator_MarshalBase env (SendDelete keyspace ksref al lim)
                = JObject (pre @ m @ [(''#operator'', JString ''SendDelete'')])"
    by (simp add: pre_def m_def)
  have pre_none: "map_of pre k = None" if "k \<noteq> ''limit''" "k \<noteq> ''alias''" for k
    using that by (simp add: pre_def split: option.splits)
  let ?fs = "pre @ m @ [(''#operator'', JString ''SendDelete'')]"
  have mp: "map_of ?fs k = map_of m k"
    if "k \<noteq> ''limit''" "k \<noteq> ''alias''" "k \<noteq> ''#operator''" for k
    using that by (simp add: map_add_def pre_none split: option.splits)
  have through: "string_field ?fs k = string_field m k"
    if "k \<noteq> ''limit''" "k \<noteq> ''alias''" "k \<noteq> ''#operator''" for k
    unfolding string_field_def mp [OF that] by (rule refl)
  have mo: "map_of ?fs ''#operator'' = Some (JString ''SendDelete'')"
    by (simp add: map_add_def pre_none o)
  have n: "operator_name (Operator_MarshalBase env (SendDelete keyspace ksref al lim))
             = Some ''SendDelete''"
    unfolding body operator_name_def by (simp add: mo del: map_of_append)
  have ma: "map_of ?fs ''alias'' = Some (JString al)"
    by (simp add: map_add_def pre_def split: option.splits)
  have a: "string_field ?fs ''alias'' = Some al"
    unfolding string_field_def ma by simp
  have li: "\<exists>t. string_field ?fs ''limit'' = Some t \<and> parsed env t = Some lim"
  proof (cases lim)
    case None
    then have "map_of ?fs ''limit'' = None"
      by (simp add: map_add_def pre_def l)
    then show ?thesis unfolding string_field_def by (simp add: parsed_def None del: map_of_append)
  next
    case (Some e)
    with SendDelete obtain t where t: "Expression_MarshalJSON env e = JString t" "t \<noteq> []"
      "parser_Parse env t = Some e"
      by (auto simp: Let_def split: json.splits)
    have "map_of ?fs ''limit'' = Some (JString t)"
      by (simp add: map_add_def pre_def Some t)
    then show ?thesis unfolding string_field_def using t by (simp add: parsed_def Some del: map_of_append)
  qed
  then obtain t where t: "string_field ?fs ''limit'' = Some t"
    "parsed env t = Some lim" by blast
  have "MakeOperator env ''SendDelete''
          (Operator_MarshalBase env (SendDelete keyspace ksref al lim))
          = Some (reloaded env (SendDelete keyspace ksref al lim))"
    unfolding body
    by (subst MakeOperator.simps) (simp add: through f g a t del: map_of_append append.simps)
  with n show ?case by blast
qed

lemma Prepared_round_trip:
  assumes "Operator p = Some op" and "operator_ok env op"
  shows "Prepared_of_json env (Prepared_MarshalBase env p)
           = Some (p\<lparr>EncodedPlan := '''', Operator := Some (reloaded env op)\<rparr>)"
proof -
  from operator_round_trip [OF assms(2)] obtain k where
    k: "operator_name (Operator_MarshalBase env op) = Some k"
       "MakeOperator env k (Operator_MarshalBase env op) = Some (reloaded env op)"
    by blast
  have u: "uint (FeatureControls p) < 2 ^ 64"
    using uint_lt2p [of "FeatureControls p"] by simp
  show ?thesis
    using k u assms(1)
    by (simp add: Prepared_of_json_def Prepared_MarshalBase_def string_field_def int_field_def not_le)
qed







lemma AddPrepared_stores:
  assumes "AddPrepared env w p = (w1, None)" "0 < cacheLimit (cache w)"
  shows "\<exists>ce. map_of (entries (cache w1)) (Name p) = Some ce \<and> Prepared ce = p"
  using assms
  by (cases "cacheLimit (cache w)")
     (auto simp: AddPrepared_def add_def Let_def distributePrepared_def GenCache_Add_def
        newCacheEntry_def split: option.splits prod.splits if_splits)

lemma getPrepared_plain:
  assumes "SplitKey env s = (h, n)" "n \<noteq> ''''"
  shows "getPrepared env w (stringValue s) 0 =
    (w, case map_of (entries (cache w)) n of None \<Rightarrow> Inl (NoSuchPreparedError n)
        | Some ce \<Rightarrow> Inr (Prepared ce))"
  using assms
  by (auto simp: getPrepared_def get_def GenCache_Get_def Let_def split: option.splits)

lemma AddPrepared_new:
  assumes "map_of (entries (cache w)) (Name q) = None" and "0 < cacheLimit (cache w)"
  shows "map_of (entries (cache (fst (AddPrepared env w q)))) (Name q)
           = Some (newCacheEntry (Now env) q False False)"
  using assms
  by (cases "cacheLimit (cache w)")
     (simp_all add: AddPrepared_def add_def Let_def distributePrepared_def GenCache_Add_def)

lemma recordMetrics_le: "metrics_le ce (recordMetrics r s ce)"
  by (auto simp: metrics_le_def recordMetrics_def TestAndSetUint64_def)

lemma metrics_le_trans: "metrics_le a b \<Longrightarrow> metrics_le b c \<Longrightarrow> metrics_le a c"
  by (auto simp: metrics_le_def)

lemma metrics_le_refl: "metrics_le a a"
  by (simp add: metrics_le_def)

lemma recordMetrics_exact:
  "MinServiceTime (recordMetrics r s ce) = min (MinServiceTime ce) s"
  "MaxServiceTime (recordMetrics r s ce) = max (MaxServiceTime ce) s"
  "MinRequestTime (recordMetrics r s ce) = min (MinRequestTime ce) r"
  "MaxRequestTime (recordMetrics r s ce) = max (MaxRequestTime ce) r"
  by (auto simp: recordMetrics_def TestAndSetUint64_def min_def max_def)

lemma RecordPreparedMetrics_entry:
  assumes "map_of (entries (cache w)) n = Some ce"
  shows "map_of (entries (cache (RecordPreparedMetrics w p r s))) n
           = Some (if n \<noteq> [] \<and> map_option Name p = Some n then recordMetrics r s ce else ce)"
  using assms
  by (auto simp: RecordPreparedMetrics_def GenCache_Get_def update_conv'
        split: option.splits)

lemma Min_insert_min:
  "finite S \<Longrightarrow> Min (insert (min a s) S) = Min (insert a (insert s S))"
  by (cases "S = {}") (simp_all add: min.assoc)

lemma Max_insert_max:
  "finite S \<Longrightarrow> Max (insert (max a s) S) = Max (insert a (insert s S))"
  by (cases "S = {}") (simp_all add: max.assoc)

lemma RecordAll_exact:
  "map_of (entries (cache w)) n = Some ce \<Longrightarrow>
   \<exists>ce'. map_of (entries (cache (RecordAll w calls))) n = Some ce'
      \<and> MinServiceTime ce' = Min (insert (MinServiceTime ce) (snd ` set (samples n calls)))
      \<and> MaxServiceTime ce' = Max (insert (MaxServiceTime ce) (snd ` set (samples n calls)))
      \<and> MinRequestTime ce' = Min (insert (MinRequestTime ce) (fst ` set (samples n calls)))
      \<and> MaxRequestTime ce' = Max (insert (MaxRequestTime ce) (fst ` set (samples n calls)))"
proof (induction calls arbitrary: w ce)
  case Nil
  then show ?case by simp
next
  case (Cons c calls)
  obtain p r s where c: "c = (p, r, s)" by (cases c)
  show ?case
  proof (cases "n \<noteq> [] \<and> map_option Name p = Some n")
    case True
    have 1: "map_of (entries (cache (RecordPreparedMetrics w p r s))) n
               = Some (recordMetrics r s ce)"
      using RecordPreparedMetrics_entry [OF Cons.prems, where p = p and r = r and s = s]
      unfolding if_P [OF True] .
    from Cons.IH [OF 1] True c show ?thesis
      by (simp add: recordMetrics_exact Min_insert_min Max_insert_max)
  next
    case False
    have 1: "map_of (entries (cache (RecordPreparedMetrics w p r s))) n = Some ce"
      using RecordPreparedMetrics_entry [OF Cons.prems, where p = p and r = r and s = s]
      unfolding if_not_P [OF False] .
    have sm: "samples n ((p, r, s) # calls) = samples n calls"
      by (simp only: samples.simps if_not_P [OF False])
    from Cons.IH [OF 1] show ?thesis unfolding sm c RecordAll.simps .
  qed
qed

lemma RecordPreparedMetrics_le:
  assumes "map_of (entries (cache w)) n = Some ce"
  shows "\<exists>ce'. map_of (entries (cache (RecordPreparedMetrics w p r s))) n = Some ce'
           \<and> metrics_le ce ce'"
  by (simp add: RecordPreparedMetrics_entry [OF assms] metrics_le_refl recordMetrics_le)

lemma RecordAll_le:
  "map_of (entries (cache w)) n = Some ce \<Longrightarrow>
   \<exists>ce'. map_of (entries (cache (RecordAll w calls))) n = Some ce' \<and> metrics_le ce ce'"
proof (induction calls arbitrary: w ce)
  case Nil
  then show ?case by (simp add: metrics_le_refl)
next
  case (Cons c calls)
  obtain p r s where c: "c = (p, r, s)" by (cases c)
  from RecordPreparedMetrics_le [OF Cons.prems, of p r s]
  obtain ce1 where 1: "map_of (entries (cache (RecordPreparedMetrics w p r s))) n = Some ce1"
    and 2: "metrics_le ce ce1" by blast
  from Cons.IH [OF 1] obtain ce' where
    "map_of (entries (cache (RecordAll (RecordPreparedMetrics w p r s) calls))) n = Some ce'"
    "metrics_le ce1 ce'" by blast
  with 2 c show ?case by (auto intro: metrics_le_trans)
qed

lemma first_sample: "MinServiceTime (recordMetrics r s (newCacheEntry t p pop tr)) = s"
  "MaxServiceTime (recordMetrics r s (newCacheEntry t p pop tr)) = s"
  "MinRequestTime (recordMetrics r s (newCacheEntry t p pop tr)) = r"
  "MaxRequestTime (recordMetrics r s (newCacheEntry t p pop tr)) = r"
  "MinServiceTime (newCacheEntry t p pop tr) = MaxUint64"
  "MaxServiceTime (newCacheEntry t p pop tr) = 0"
  "MinRequestTime (newCacheEntry t p pop tr) = MaxUint64"
  "MaxRequestTime (newCacheEntry t p pop tr) = 0"
  by (auto simp: recordMetrics_def TestAndSetUint64_def newCacheEntry_def MaxUint64_def Let_def
        word_gt_0 not_less word_order.extremum_unique)






lemma number_is_float: "TypeOf a = NUMBER \<Longrightarrow> floatValue (Actual_float64 a) = a"
  by (cases a) simp_all

lemma missing_is_MISSING_VALUE: "TypeOf a = MISSING \<longleftrightarrow> a = MISSING_VALUE"
  by (cases a) simp_all

lemma IfInf_loop_found: "IfInf_loop (map Inr args) null missing (Some v) = Inr v"
  by (induction args arbitrary: null missing) (simp_all add: Let_def)

lemma IfInf_loop_null:
  "IfInf_loop (map Inr args) True missing None
     = Inr (if missing then MISSING_VALUE else NULL_VALUE)"
  by (induction args arbitrary: missing) simp_all

lemma IfInf_loop_scan:
  "IfInf_loop (map Inr args) False missing None =
     Inr (case first_number (\<lambda>f. \<not> IsInf f) (scanned args) of
            Some v \<Rightarrow> v
          | None \<Rightarrow>
              if missing \<or> MISSING_VALUE \<in> set (scanned args) then MISSING_VALUE
              else NULL_VALUE)"
proof (induction args arbitrary: missing)
  case Nil
  then show ?case by (simp add: scanned_def first_number_def)
next
  case (Cons a args)
  show ?case
  proof (cases "TypeOf a = MISSING")
    case True
    then show ?thesis
      using Cons.IH [of True]
      by (auto simp: scanned_def first_number_def missing_is_MISSING_VALUE split: option.splits)
  next
    case False
    note nm = this
    show ?thesis
    proof (cases "TypeOf a = NUMBER")
      case True
      then show ?thesis
        using Cons.IH [of missing] nm
        by (auto simp: scanned_def first_number_def IfInf_loop_found number_is_float Let_def
            missing_is_MISSING_VALUE split: option.splits)
    next
      case False
      then show ?thesis
        using nm by (simp add: scanned_def first_number_def IfInf_loop_null)
    qed
  qed
qed

lemma IfNaN_loop_found: "IfNaN_loop good (map Inr args) null (Some v) = Inr v"
  by (induction args arbitrary: null) (simp_all add: Let_def)

lemma IfNaN_loop_null: "IfNaN_loop good (map Inr args) True None = Inr NULL_VALUE"
  by (induction args) simp_all

lemma IfNaN_loop_scan:
  "IfNaN_loop good (map Inr args) False None =
     Inr (case first_number good (scanned args) of Some v \<Rightarrow> v | None \<Rightarrow> NULL_VALUE)"
proof (induction args)
  case Nil
  then show ?case by (simp add: scanned_def first_number_def)
next
  case (Cons a args)
  show ?case
  proof (cases "TypeOf a = MISSING")
    case True
    then show ?thesis
      using Cons.IH
      by (auto simp: scanned_def first_number_def split: option.splits)
  next
    case False
    note nm = this
    show ?thesis
    proof (cases "TypeOf a = NUMBER")
      case True
      then show ?thesis
        using Cons.IH nm
        by (auto simp: scanned_def first_number_def IfNaN_loop_found number_is_float Let_def
            split: option.splits)
    next
      case False
      then show ?thesis
        using nm by (simp add: scanned_def first_number_def IfNaN_loop_null)
    qed
  qed
qed

lemma primariesLoop_none_online:
  "\<forall>p \<in> set ps. \<exists>st. State p = Inr st \<and> st \<noteq> ONLINE \<Longrightarrow>
   primariesLoop ps primary = Inr (if ps = [] then primary else Some (last ps))"
  by (induction ps arbitrary: primary) auto

lemma indexersLoop_none_online:
  "\<forall>ix \<in> set indexers. \<exists>ps. ix = Inr ps \<Longrightarrow>
   \<forall>p \<in> set (all_primaries indexers). \<exists>st. State p = Inr st \<and> st \<noteq> ONLINE \<Longrightarrow>
   indexersLoop indexers primary =
     Inr (if all_primaries indexers = [] then primary else Some (last (all_primaries indexers)))"
proof (induction indexers arbitrary: primary)
  case Nil
  then show ?case by simp
next
  case (Cons ix indexers)
  then obtain ps where ps: "ix = Inr ps" by auto
  have 1: "\<forall>p \<in> set ps. \<exists>st. State p = Inr st \<and> st \<noteq> ONLINE"
    using Cons.prems(2) ps by simp
  have 2: "\<forall>p \<in> set (all_primaries indexers). \<exists>st. State p = Inr st \<and> st \<noteq> ONLINE"
    using Cons.prems(2) ps by simp
  have 3: "\<forall>ix \<in> set indexers. \<exists>ps. ix = Inr ps" using Cons.prems(1) by simp
  show ?case
    by (simp add: ps primariesLoop_none_online [OF 1] Cons.IH [OF 3 2])
qed

lemma hintsLoop_no_primary:
  "\<forall>index \<in> set indexes. \<not> IsPrimary index \<Longrightarrow> hintsLoop indexes = None"
  by (induction indexes) auto

lemma received_from_append:
  "received_from seen k i \<Longrightarrow> received_from (seen @ later) k i"
  by (auto simp: received_from_def)

lemma received_from_last:
  "keyOf it = Some k \<Longrightarrow> received_from (seen @ [Item it]) k (unat (Bit it))"
  by (auto simp: received_from_def)

lemma inv_mono: "inv N limit b seen this \<Longrightarrow> inv N limit b (seen @ later) this"
  unfolding inv_def by (meson received_from_append)

lemma fullBitsOf_Suc:
  "fullBitsOf (Suc n) = fullBitsOf n OR push_bit (unat (word_of_nat n :: 8 word)) 1"
  by (simp add: fullBitsOf_def)

lemma unat_of_nat_8: "n < 256 \<Longrightarrow> unat (word_of_nat n :: 8 word) = n"
  by (simp add: unat_of_nat)

lemma bit_push_bit_1: "bit (push_bit n (1 :: 64 word)) i \<longleftrightarrow> i = n \<and> n < 64"
  by (auto simp: bit_exp_iff possible_bit_word)

lemma fullBitsOf_bit: "N \<le> 64 \<Longrightarrow> i < N \<Longrightarrow> bit (fullBitsOf N) i"
proof (induction N)
  case 0
  then show ?case by simp
next
  case (Suc N)
  then show ?case
    by (cases "i = N") (auto simp: fullBitsOf_Suc bit_or_iff bit_push_bit_1 unat_of_nat_8
          simp del: push_bit_of_1)
qed

lemma covers_bit:
  fixes x f :: "64 word"
  assumes "(x AND f) XOR f = 0" "bit f i"
  shows "bit x i"
proof -
  from assms(1) have "x AND f = f" by (metis bit.xor_left_self xor.right_neutral)
  then have "bit (x AND f) i" using assms(2) by simp
  then show ?thesis by (simp add: bit_and_iff)
qed


lemma keyOf_Bit_update [simp]: "keyOf (it\<lparr>Bit := b\<rparr>) = keyOf it"
  by (simp add: keyOf_def)

lemma sendItem_frame:
  assumes "sendItem this x = (this', ok)"
  shows "scan_bit this' = scan_bit this" "bits this' = bits this"
    "values_map this' = values_map this" "sent this' = sent this"
    "emitted this' = (if ok then emitted this @ [x] else emitted this)"
  using assms by (auto simp: sendItem_def split: option.splits nat.splits)

lemma pending_bits:
  assumes inv: "inv N limit b seen this" and k: "keyOf it = Some key"
    and b0: "bits0 = (case map_of (bits this) key of None \<Rightarrow> 0 | Some w \<Rightarrow> w)"
    and bi: "bit (bits0 OR push_bit (unat (Bit it)) 1) i"
  shows "received_from (seen @ [Item it]) key i"
proof (cases "bit bits0 i")
  case True
  then obtain w where "map_of (bits this) key = Some w" "bits0 = w"
    using b0 by (cases "map_of (bits this) key") auto
  with True inv have "received_from seen key i" by (auto simp: inv_def)
  then show ?thesis by (rule received_from_append)
next
  case False
  with bi have "i = unat (Bit it)" by (auto simp: bit_or_iff bit_push_bit_1 simp del: push_bit_of_1)
  with received_from_last [OF k] show ?thesis by simp
qed

lemma processKey_inv:
  assumes inv: "inv N limit b seen this" and head: "0 < limit \<longrightarrow> sent this < limit"
    and N: "N \<le> 64" and pk: "processKey this it (fullBitsOf N) limit = (this', ok)"
  shows "inv N limit b (seen @ [Item it]) this' \<and> (ok \<longrightarrow> 0 < limit \<longrightarrow> sent this' < limit)"
proof (cases "keyOf it")
  case None
  with pk have "this' = this\<lparr>errors := errors this + 1\<rparr>" "\<not> ok"
    by (auto simp: processKey_def)
  with inv_mono [OF inv, of "[Item it]"] show ?thesis by (simp add: inv_def)
next
  case (Some key)
  define bits0 where "bits0 = (case map_of (bits this) key of None \<Rightarrow> 0 | Some w \<Rightarrow> w)"
  define this1 where "this1 = (if bits0 = 0
      then this\<lparr>values_map := AList.update key it (values_map this)\<rparr> else this)"
  define bits1 where "bits1 = bits0 OR push_bit (unat (Bit it)) 1"
  have rec: "bit bits1 i \<Longrightarrow> received_from (seen @ [Item it]) key i" for i
    using pending_bits [OF inv Some bits0_def] by (simp add: bits1_def)
  have old: "inv N limit b (seen @ [Item it]) this" by (rule inv_mono [OF inv])
  have v1: "\<forall>k x. map_of (values_map this1) k = Some x \<longrightarrow> keyOf x = Some k"
    using inv Some by (auto simp: this1_def inv_def update_conv')
  have f1: "bits this1 = bits this" "scan_bit this1 = b" "emitted this1 = emitted this"
    "sent this1 = sent this"
    using inv by (auto simp: this1_def inv_def)
  define this3 where "this3 =
      (let this2 = this1\<lparr>values_map := AList.delete key (values_map this1),
                          bits := AList.delete key (bits this1)\<rparr>
       in if limit > 0 then this2\<lparr>sent := sent this2 + 1\<rparr> else this2)"
  have pk_eq: "processKey this it (fullBitsOf N) limit =
      (if (bits1 AND fullBitsOf N) XOR fullBitsOf N = 0 then
         (case sendItem this3 (it\<lparr>Bit := scan_bit this3\<rparr>) of
            (this4, ok) \<Rightarrow> (this4, ok \<and> (limit \<le> 0 \<or> sent this4 < limit)))
       else (this1\<lparr>bits := AList.update key bits1 (bits this1)\<rparr>, True))"
    unfolding processKey_def bits0_def this1_def bits1_def this3_def Let_def Some
    by simp
  show ?thesis
  proof (cases "(bits1 AND fullBitsOf N) XOR fullBitsOf N = 0")
    case True
    obtain this4 ok4 where s: "sendItem this3 (it\<lparr>Bit := scan_bit this3\<rparr>) = (this4, ok4)"
      by (cases "sendItem this3 (it\<lparr>Bit := scan_bit this3\<rparr>)")
    have res: "this' = this4" "ok = (ok4 \<and> (limit \<le> 0 \<or> sent this4 < limit))"
      using pk True s by (auto simp: pk_eq)
    have f3: "scan_bit this3 = b" "bits this3 = AList.delete key (bits this)"
      "values_map this3 = AList.delete key (values_map this1)"
      "emitted this3 = emitted this"
      "sent this3 = (if limit > 0 then sent this + 1 else sent this)"
      using f1 by (auto simp: this3_def Let_def)
    note fr = sendItem_frame [OF s]
    have all: "\<forall>i<N. received_from (seen @ [Item it]) key i"
      using covers_bit [OF True] fullBitsOf_bit [OF N] rec by blast
    have new: "Bit (it\<lparr>Bit := scan_bit this3\<rparr>) = b
      \<and> (\<exists>k. keyOf (it\<lparr>Bit := scan_bit this3\<rparr>) = Some k
            \<and> (\<forall>i<N. received_from (seen @ [Item it]) k i))"
      using all Some f3 by simp
    have "inv N limit b (seen @ [Item it]) this4"
      unfolding inv_def
    proof (intro conjI)
      show "scan_bit this4 = b" using fr f3 by simp
      show "distinct (map fst (bits this4))"
        using inv fr f3 by (simp add: inv_def distinct_delete)
      show "\<forall>k w i. map_of (bits this4) k = Some w \<longrightarrow> bit w i \<longrightarrow>
              received_from (seen @ [Item it]) k i"
        using old fr f3 by (auto simp: inv_def delete_conv' split: if_splits)
      show "\<forall>k x. map_of (values_map this4) k = Some x \<longrightarrow> keyOf x = Some k"
        using v1 fr f3 by (auto simp: delete_conv' split: if_splits)
      show "\<forall>x\<in>set (emitted this4). Bit x = b \<and>
              (\<exists>k. keyOf x = Some k \<and> (\<forall>i<N. received_from (seen @ [Item it]) k i))"
        using old new fr(5) f3(4) by (auto simp: inv_def split: if_splits)
      show "0 < limit \<longrightarrow> int (length (emitted this4)) \<le> sent this4 \<and> sent this4 \<le> limit"
        using inv head fr f3 by (auto simp: inv_def)
    qed
    with res show ?thesis by auto
  next
    case False
    have res: "this' = this1\<lparr>bits := AList.update key bits1 (bits this1)\<rparr>" "ok"
      using pk False by (auto simp: pk_eq)
    have "inv N limit b (seen @ [Item it]) this'"
      unfolding inv_def
    proof (intro conjI)
      show "scan_bit this' = b" using res f1 by simp
      show "distinct (map fst (bits this'))"
        using inv res f1 by (simp add: inv_def distinct_update)
      show "\<forall>k w i. map_of (bits this') k = Some w \<longrightarrow> bit w i \<longrightarrow>
              received_from (seen @ [Item it]) k i"
        using old res f1 rec by (auto simp: inv_def update_conv' split: if_splits)
      show "\<forall>k x. map_of (values_map this') k = Some x \<longrightarrow> keyOf x = Some k"
        using v1 res by simp
      show "\<forall>x\<in>set (emitted this'). Bit x = b \<and>
              (\<exists>k. keyOf x = Some k \<and> (\<forall>i<N. received_from (seen @ [Item it]) k i))"
        using old res f1 by (auto simp: inv_def)
      show "0 < limit \<longrightarrow> int (length (emitted this')) \<le> sent this' \<and> sent this' \<le> limit"
        using inv res f1 by (auto simp: inv_def)
    qed
    with res head f1 show ?thesis by simp
  qed
qed


lemma inv_notified: "inv N limit b seen this \<Longrightarrow> inv N limit b seen (this\<lparr>notified := True\<rparr>)"
  by (simp add: inv_def)

lemma receive_inv:
  assumes "inv N limit b seen this" and "0 < limit \<longrightarrow> sent this < limit" and "N \<le> 64"
    and "receive nscans (fullBitsOf N) limit events this n cb = (this', cb', outcome)"
  shows "inv N limit b (seen @ events) this'"
  using assms
proof (induction events arbitrary: seen this n cb)
  case Nil
  then show ?case by simp
next
  case (Cons ev events)
  show ?case
  proof (cases ev)
    case (Item it)
    obtain this1 ok where pk: "processKey this it (fullBitsOf N) limit = (this1, ok)"
      by (cases "processKey this it (fullBitsOf N) limit")
    from processKey_inv [OF Cons.prems(1,2,3) pk]
    have i1: "inv N limit b (seen @ [Item it]) this1"
      and h1: "ok \<longrightarrow> 0 < limit \<longrightarrow> sent this1 < limit" by auto
    show ?thesis
    proof (cases ok)
      case True
      with Cons.prems(4) Item pk
      have "receive nscans (fullBitsOf N) limit events this1 n cb = (this', cb', outcome)"
        by simp
      from Cons.IH [OF i1 _ Cons.prems(3) this] h1 True Item show ?thesis by simp
    next
      case False
      with Cons.prems(4) Item pk have "this' = this1" by simp
      with inv_mono [OF i1, of events] Item show ?thesis by simp
    qed
  next
    case (ChildDone c)
    have i1: "inv N limit b (seen @ [ChildDone c]) this"
      by (rule inv_mono [OF Cons.prems(1)])
    show ?thesis
    proof (cases "n = nscans")
      case True
      with Cons.prems(4) ChildDone
      have r: "receive nscans (fullBitsOf N) limit events (this\<lparr>notified := True\<rparr>) (n - 1)
                 (cb OR push_bit c 1) = (this', cb', outcome)" by simp
      from Cons.IH [OF inv_notified [OF i1] _ Cons.prems(3) r] Cons.prems(2) ChildDone
      show ?thesis by simp
    next
      case False
      with Cons.prems(4) ChildDone
      have r: "receive nscans (fullBitsOf N) limit events this (n - 1) cb = (this', cb', outcome)"
        by simp
      from Cons.IH [OF i1 Cons.prems(2,3) r] ChildDone show ?thesis by simp
    qed
  next
    case Stop
    with Cons.prems(4) have "this' = this \<or> this' = this\<lparr>notified := True\<rparr>"
      by (auto split: if_splits)
    with inv_mono [OF Cons.prems(1), of "ev # events"] inv_notified show ?thesis by auto
  next
    case Closed
    with Cons.prems(4) have "this' = this" by simp
    with inv_mono [OF Cons.prems(1), of "ev # events"] show ?thesis by simp
  qed
qed

lemma receive_childBits_later:
  "n < nscans \<Longrightarrow> receive nscans fb limit events this n cb = (this', cb', outcome) \<Longrightarrow> cb' = cb"
proof (induction events arbitrary: this n)
  case Nil
  then show ?case by simp
next
  case (Cons ev events)
  then show ?case
  proof (cases ev)
    case (Item it)
    with Cons show ?thesis
      by (cases "processKey this it fb limit") (auto split: if_splits)
  next
    case (ChildDone c)
    with Cons.prems have "receive nscans fb limit events this (n - 1) cb = (this', cb', outcome)"
      by simp
    with Cons.IH [of "n - 1" this] Cons.prems(1) show ?thesis by simp
  qed (auto split: if_splits)
qed

lemma receive_childBits:
  "receive nscans fb limit events this nscans 0 = (this', cb', outcome) \<Longrightarrow>
   cb' = 0 \<or> (\<exists>c. first_done events = Some c \<and> cb' = push_bit c 1)"
proof (induction events arbitrary: this)
  case Nil
  then show ?case by simp
next
  case (Cons ev events)
  then show ?case
  proof (cases ev)
    case (Item it)
    with Cons show ?thesis
      by (cases "processKey this it fb limit") (auto split: if_splits)
  next
    case (ChildDone c)
    with Cons.prems
    have "receive nscans fb limit events (this\<lparr>notified := True\<rparr>) (nscans - 1) (push_bit c 1)
            = (this', cb', outcome)" by simp
    from receive_childBits_later [OF _ this] ChildDone show ?thesis by simp
  qed auto
qed

lemma sendItems_loop_sound:
  assumes "\<forall>(k, w) \<in> set l. \<forall>i. bit w i \<longrightarrow> received_from seen k i"
    and "\<forall>k it. map_of (values_map this) k = Some it \<longrightarrow> keyOf it = Some k"
  shows "\<exists>ys. emitted (sendItems_loop l cb this) = emitted this @ ys
      \<and> (\<forall>y \<in> set ys. Bit y = scan_bit this
            \<and> (\<exists>k. keyOf y = Some k \<and> (\<forall>c. bit cb c \<longrightarrow> received_from seen k c)))"
  using assms
proof (induction l arbitrary: this)
  case Nil
  then show ?case by simp
next
  case (Cons kw l)
  obtain k w where kw: "kw = (k, w)" by (cases kw)
  have rest: "\<forall>(k, w) \<in> set l. \<forall>i. bit w i \<longrightarrow> received_from seen k i"
    using Cons.prems(1) by simp
  show ?case
  proof (cases "(w AND cb) XOR cb = 0")
    case False
    with Cons.IH [OF rest Cons.prems(2)] kw show ?thesis by simp
  next
    case True
    show ?thesis
    proof (cases "map_of (values_map this) k")
      case None
      with True kw show ?thesis by simp
    next
      case (Some item)
      obtain this1 ok where s: "sendItem this (item\<lparr>Bit := scan_bit this\<rparr>) = (this1, ok)"
        by (cases "sendItem this (item\<lparr>Bit := scan_bit this\<rparr>)")
      note fr = sendItem_frame [OF s]
      have good: "Bit (item\<lparr>Bit := scan_bit this\<rparr>) = scan_bit this
          \<and> (\<exists>k'. keyOf (item\<lparr>Bit := scan_bit this\<rparr>) = Some k'
                \<and> (\<forall>c. bit cb c \<longrightarrow> received_from seen k' c))"
        using Cons.prems Some kw covers_bit [OF True] by auto
      show ?thesis
      proof (cases ok)
        case False
        with True kw Some s fr show ?thesis by simp
      next
        case True
        have v: "\<forall>k it. map_of (values_map this1) k = Some it \<longrightarrow> keyOf it = Some k"
          using Cons.prems(2) fr by simp
        from Cons.IH [OF rest v] obtain ys where
          ys: "emitted (sendItems_loop l cb this1) = emitted this1 @ ys"
            "\<forall>y \<in> set ys. Bit y = scan_bit this1
              \<and> (\<exists>k. keyOf y = Some k \<and> (\<forall>c. bit cb c \<longrightarrow> received_from seen k c))"
          by blast
        have "emitted (sendItems_loop (kw # l) cb this)
                = emitted this @ (item\<lparr>Bit := scan_bit this\<rparr> # ys)"
          using \<open>(w AND cb) XOR cb = 0\<close> kw Some s True ys(1) fr by simp
        moreover have "\<forall>y \<in> set (item\<lparr>Bit := scan_bit this\<rparr> # ys). Bit y = scan_bit this
              \<and> (\<exists>k. keyOf y = Some k \<and> (\<forall>c. bit cb c \<longrightarrow> received_from seen k c))"
          using good ys(2) fr by simp
        ultimately show ?thesis by blast
      qed
    qed
  qed
qed

lemma inv_start: "inv N limit b [] (NewIntersectScan b r)"
  by (simp add: inv_def NewIntersectScan_def)

lemma received_from_snoc_Item:
  "received_from (seen @ [Item it]) k i \<longleftrightarrow>
     received_from seen k i \<or> (keyOf it = Some k \<and> unat (Bit it) = i)"
  by (auto simp: received_from_def)

lemma received_from_snoc_other:
  "(\<And>it. ev \<noteq> Item it) \<Longrightarrow> received_from (seen @ [ev]) k i \<longleftrightarrow> received_from seen k i"
  by (cases ev) (auto simp: received_from_def)

lemma sendItem_room_None:
  "room this = None \<Longrightarrow> sendItem this x = (this\<lparr>emitted := emitted this @ [x]\<rparr>, True)"
  by (simp add: sendItem_def)

lemma processKey_covered:
  assumes cov: "covered seen this" and k: "keyOf it = Some key" and r: "room this = None"
    and pk: "processKey this it F limit = (this', ok)"
  shows "covered (seen @ [Item it]) this' \<and> room this' = None \<and> (limit \<le> 0 \<longrightarrow> ok)"
proof -
  define bits0 where "bits0 = (case map_of (bits this) key of None \<Rightarrow> 0 | Some w \<Rightarrow> w)"
  define this1 where "this1 = (if bits0 = 0
      then this\<lparr>values_map := AList.update key it (values_map this)\<rparr> else this)"
  define bits1 where "bits1 = bits0 OR push_bit (unat (Bit it)) 1"
  define this3 where "this3 =
      (let this2 = this1\<lparr>values_map := AList.delete key (values_map this1),
                          bits := AList.delete key (bits this1)\<rparr>
       in if limit > 0 then this2\<lparr>sent := sent this2 + 1\<rparr> else this2)"
  have pk_eq: "processKey this it F limit =
      (if (bits1 AND F) XOR F = 0 then
         (case sendItem this3 (it\<lparr>Bit := scan_bit this3\<rparr>) of
            (this4, ok) \<Rightarrow> (this4, ok \<and> (limit \<le> 0 \<or> sent this4 < limit)))
       else (this1\<lparr>bits := AList.update key bits1 (bits this1)\<rparr>, True))"
    unfolding processKey_def bits0_def this1_def bits1_def this3_def Let_def k
    by simp
  have f1: "bits this1 = bits this" "emitted this1 = emitted this" "room this1 = None"
    using r by (auto simp: this1_def)
  have v1: "\<forall>k x. map_of (values_map this) k = Some x \<longrightarrow> (\<exists>y. map_of (values_map this1) k = Some y)"
    by (auto simp: this1_def update_conv')
  have vkey: "bits0 \<noteq> 0 \<or> (\<exists>y. map_of (values_map this1) key = Some y)"
    by (auto simp: this1_def update_conv')
  have b0: "map_of (bits this) key = Some w \<Longrightarrow> bits0 = w" for w
    by (simp add: bits0_def)
  have b0': "bits0 \<noteq> 0 \<Longrightarrow> map_of (bits this) key = Some bits0"
    by (cases "map_of (bits this) key") (auto simp: bits0_def)
  show ?thesis
  proof (cases "(bits1 AND F) XOR F = 0")
    case True
    have r3: "room this3 = None" using f1 by (simp add: this3_def Let_def)
    have res: "this' = this3\<lparr>emitted := emitted this3 @ [it\<lparr>Bit := scan_bit this3\<rparr>]\<rparr>"
      "ok = (limit \<le> 0 \<or> sent this3 < limit)"
      using pk True by (auto simp: pk_eq sendItem_room_None [OF r3])
    have f3: "bits this3 = AList.delete key (bits this)"
      "values_map this3 = AList.delete key (values_map this1)"
      "emitted this3 = emitted this"
      using f1 by (auto simp: this3_def Let_def)
    have "covered (seen @ [Item it]) this'"
      unfolding covered_def
    proof (intro conjI allI impI)
      fix k' w assume "map_of (bits this') k' = Some w"
      then have "k' \<noteq> key" "map_of (bits this) k' = Some w"
        using res f3 by (auto simp: delete_conv' split: if_splits)
      with cov v1 show "\<exists>y. map_of (values_map this') k' = Some y"
        using res f3 by (auto simp: covered_def delete_conv')
    next
      fix k' i assume i: "i < 64" and rf: "received_from (seen @ [Item it]) k' i"
      show "(\<exists>x \<in> set (emitted this'). keyOf x = Some k')
            \<or> (\<exists>w. map_of (bits this') k' = Some w \<and> bit w i)"
      proof (cases "k' = key")
        case True
        then show ?thesis using res k by simp
      next
        case False
        with rf k have "received_from seen k' i" by (simp add: received_from_snoc_Item)
        with cov i have "(\<exists>x \<in> set (emitted this). keyOf x = Some k')
            \<or> (\<exists>w. map_of (bits this) k' = Some w \<and> bit w i)" by (simp add: covered_def)
        with False show ?thesis using res f3 by (auto simp: delete_conv')
      qed
    qed
    with res r3 show ?thesis by simp
  next
    case False
    have res: "this' = this1\<lparr>bits := AList.update key bits1 (bits this1)\<rparr>" "ok"
      using pk False by (auto simp: pk_eq)
    have "covered (seen @ [Item it]) this'"
      unfolding covered_def
    proof (intro conjI allI impI)
      fix k' w assume m: "map_of (bits this') k' = Some w"
      show "\<exists>y. map_of (values_map this') k' = Some y"
      proof (cases "k' = key")
        case True
        show ?thesis
        proof (cases "bits0 = 0")
          case True
          with vkey \<open>k' = key\<close> res show ?thesis by simp
        next
          case False
          from b0' [OF False] cov v1 \<open>k' = key\<close> res show ?thesis
            by (auto simp: covered_def)
        qed
      next
        case False
        with m res f1 have "map_of (bits this) k' = Some w" by (simp add: update_conv')
        with cov v1 res show ?thesis by (auto simp: covered_def)
      qed
    next
      fix k' i assume i: "i < 64" and rf: "received_from (seen @ [Item it]) k' i"
      show "(\<exists>x \<in> set (emitted this'). keyOf x = Some k')
            \<or> (\<exists>w. map_of (bits this') k' = Some w \<and> bit w i)"
      proof (cases "k' = key")
        case False
        with rf k have "received_from seen k' i" by (simp add: received_from_snoc_Item)
        with cov i have "(\<exists>x \<in> set (emitted this). keyOf x = Some k')
            \<or> (\<exists>w. map_of (bits this) k' = Some w \<and> bit w i)" by (simp add: covered_def)
        with False show ?thesis using res f1 by (auto simp: update_conv')
      next
        case True
        have m: "map_of (bits this') key = Some bits1" using res by (simp add: update_conv')
        from rf have "received_from seen key i \<or> unat (Bit it) = i"
          using True by (auto simp: received_from_snoc_Item)
        then show ?thesis
        proof
          assume "unat (Bit it) = i"
          with i have "bit bits1 i"
            by (simp add: bits1_def bit_or_iff bit_push_bit_1 del: push_bit_of_1)
          with m True show ?thesis by blast
        next
          assume "received_from seen key i"
          with cov i have "(\<exists>x \<in> set (emitted this). keyOf x = Some key)
            \<or> (\<exists>w. map_of (bits this) key = Some w \<and> bit w i)" by (simp add: covered_def)
          then show ?thesis
          proof
            assume "\<exists>x \<in> set (emitted this). keyOf x = Some key"
            with True res f1 show ?thesis by simp
          next
            assume "\<exists>w. map_of (bits this) key = Some w \<and> bit w i"
            then obtain w where "map_of (bits this) key = Some w" "bit w i" by blast
            with b0 have "bit bits1 i" by (simp add: bits1_def bit_or_iff)
            with m True show ?thesis by blast
          qed
        qed
      qed
    qed
    with res f1 show ?thesis by simp
  qed
qed


lemma covered_other:
  "covered seen this \<Longrightarrow> (\<And>it. ev \<noteq> Item it) \<Longrightarrow> covered (seen @ [ev]) this"
  by (simp add: covered_def received_from_snoc_other)

lemma covered_notified: "covered seen this \<Longrightarrow> covered seen (this\<lparr>notified := True\<rparr>)"
  by (simp add: covered_def)

lemma receive_run:
  assumes "covered seen this" and "room this = None" and "limit \<le> 0"
    and "\<forall>it. Item it \<in> set pre \<longrightarrow> keyOf it \<noteq> None"
    and "Closed \<notin> set pre" and "Stop \<notin> set pre"
  shows "\<exists>this' cb'. receive nscans F limit (pre @ Closed # later) this n cb
             = (this', cb', Finished False True)
           \<and> covered (seen @ pre) this' \<and> room this' = None
           \<and> (n = nscans \<longrightarrow> cb = 0 \<longrightarrow> (\<forall>c. first_done pre = Some c \<longrightarrow> cb' = push_bit c 1))"
  using assms
proof (induction pre arbitrary: seen this n cb)
  case Nil
  then show ?case by simp
next
  case (Cons ev pre)
  have keys: "\<forall>it. Item it \<in> set pre \<longrightarrow> keyOf it \<noteq> None"
    and nc: "Closed \<notin> set pre" and ns: "Stop \<notin> set pre"
    using Cons.prems by auto
  show ?case
  proof (cases ev)
    case (Item it)
    with Cons.prems obtain key where k: "keyOf it = Some key" by auto
    obtain this1 ok where pk: "processKey this it F limit = (this1, ok)"
      by (cases "processKey this it F limit")
    from processKey_covered [OF Cons.prems(1) k Cons.prems(2) pk] Cons.prems(3)
    have c1: "covered (seen @ [Item it]) this1" and r1: "room this1 = None" and ok by auto
    from Cons.IH [OF c1 r1 Cons.prems(3) keys nc ns, where n = n and cb = cb]
    show ?thesis using Item pk \<open>ok\<close> by auto
  next
    case (ChildDone c)
    have c1: "covered (seen @ [ChildDone c]) this"
      by (rule covered_other [OF Cons.prems(1)]) simp
    show ?thesis
    proof (cases "n = nscans")
      case False
      from Cons.IH [OF c1 Cons.prems(2,3) keys nc ns, where n = "n - 1" and cb = cb]
      show ?thesis using ChildDone False by auto
    next
      case True
      from Cons.IH [OF covered_notified [OF c1] _ Cons.prems(3) keys nc ns,
          where n = "n - 1" and cb = "cb OR push_bit c 1"] Cons.prems(2)
      obtain this' cb' where
        r: "receive nscans F limit (pre @ Closed # later) (this\<lparr>notified := True\<rparr>) (n - 1)
              (cb OR push_bit c 1) = (this', cb', Finished False True)"
        and c': "covered ((seen @ [ChildDone c]) @ pre) this'" and r': "room this' = None"
        by auto
      from receive_childBits_later [OF _ r] True have "cb' = cb OR push_bit c 1" by simp
      with r c' r' ChildDone True show ?thesis by auto
    qed
  next
    case Stop
    with Cons.prems show ?thesis by simp
  next
    case Closed
    with Cons.prems show ?thesis by simp
  qed
qed

lemma covers_single:
  fixes w :: "64 word"
  assumes "bit w c"
  shows "(w AND push_bit c 1) XOR push_bit c 1 = 0"
proof -
  have "w AND push_bit c 1 = push_bit c 1"
    using assms by (intro bit_eqI) (auto simp: bit_and_iff bit_push_bit_1 simp del: push_bit_of_1)
  then show ?thesis by simp
qed

lemma sendItems_loop_emitted_mono:
  "room this = None \<Longrightarrow> x \<in> set (emitted this) \<Longrightarrow> x \<in> set (emitted (sendItems_loop l cb this))"
proof (induction l arbitrary: this)
  case Nil
  then show ?case by simp
next
  case (Cons kw l)
  obtain k w where kw: "kw = (k, w)" by (cases kw)
  show ?case
    using Cons kw
    by (auto simp: sendItem_room_None split: option.splits)
qed

lemma sendItems_loop_complete:
  assumes "room this = None"
    and "\<forall>(k, w) \<in> set l. \<exists>it. map_of (values_map this) k = Some it \<and> keyOf it = Some k"
    and "(k, w) \<in> set l" and "bit w c"
  shows "\<exists>x \<in> set (emitted (sendItems_loop l (push_bit c 1) this)). keyOf x = Some k"
  using assms
proof (induction l arbitrary: this)
  case Nil
  then show ?case by simp
next
  case (Cons kw l)
  obtain k' w' where kw: "kw = (k', w')" by (cases kw)
  from Cons.prems(2) kw obtain it' where
    it': "map_of (values_map this) k' = Some it'" "keyOf it' = Some k'" by auto
  define this1 where "this1 = this\<lparr>emitted := emitted this @ [it'\<lparr>Bit := scan_bit this\<rparr>]\<rparr>"
  have r1: "room this1 = None" using Cons.prems(1) by (simp add: this1_def)
  have v1: "\<forall>(k, w) \<in> set l. \<exists>it. map_of (values_map this1) k = Some it \<and> keyOf it = Some k"
    using Cons.prems(2) by (simp add: this1_def)
  show ?case
  proof (cases "(k, w) = (k', w')")
    case True
    then have cov: "(w' AND push_bit c 1) XOR push_bit c 1 = 0"
      using covers_single [OF Cons.prems(4)] by simp
    have "it'\<lparr>Bit := scan_bit this\<rparr> \<in> set (emitted this1)" by (simp add: this1_def)
    from sendItems_loop_emitted_mono [OF r1 this, of l "push_bit c 1"]
    have "it'\<lparr>Bit := scan_bit this\<rparr> \<in> set (emitted (sendItems_loop (kw # l) (push_bit c 1) this))"
      using kw cov it' Cons.prems(1)
      by (simp add: sendItem_room_None this1_def del: push_bit_of_1)
    moreover have "keyOf (it'\<lparr>Bit := scan_bit this\<rparr>) = Some k" using it' True by simp
    ultimately show ?thesis by blast
  next
    case False
    with Cons.prems(3) kw have mem: "(k, w) \<in> set l" by auto
    show ?thesis
    proof (cases "(w' AND push_bit c 1) XOR push_bit c 1 = 0")
      case True
      from Cons.IH [OF r1 v1 mem Cons.prems(4)] show ?thesis
        using kw True it' Cons.prems(1)
        by (simp add: sendItem_room_None this1_def del: push_bit_of_1)
    next
      case False
      from Cons.IH [OF Cons.prems(1) _ mem Cons.prems(4)] Cons.prems(2) show ?thesis
        using kw False by (simp del: push_bit_of_1)
    qed
  qed
qed

lemma covered_start: "covered [] (NewIntersectScan b r)"
  by (simp add: covered_def NewIntersectScan_def received_from_def)

lemma intersect_scan_complete:
  assumes "0 < nscans" and "nscans \<le> 64" and "limit \<le> 0"
    and "\<forall>it. Item it \<in> set pre \<longrightarrow> keyOf it \<noteq> None"
    and "Closed \<notin> set pre" and "Stop \<notin> set pre"
    and "first_done pre = Some c" and "c < 64" and "received_from pre k c"
  shows "\<exists>x \<in> set (emitted (RunOnce nscans limit True (pre @ Closed # later)
                               (NewIntersectScan b None))). keyOf x = Some k"
proof -
  let ?start = "NewIntersectScan b None"
  let ?events = "pre @ Closed # later"
  have r0: "room ?start = None" by (simp add: NewIntersectScan_def)
  from receive_run [OF covered_start r0 assms(3,4,5,6), where nscans = "int nscans"
      and F = "fullBitsOf nscans" and later = later and n = "int nscans" and cb = 0]
  obtain this1 cb where
    rc: "receive (int nscans) (fullBitsOf nscans) limit ?events ?start (int nscans) 0
           = (this1, cb, Finished False True)"
    and cov: "covered pre this1" and r1: "room this1 = None"
    and cb: "cb = push_bit c 1"
    using assms(7) by auto
  have h: "0 < limit \<longrightarrow> sent ?start < limit" using assms(3) by simp
  from receive_inv [OF inv_start h assms(2) rc]
  have i: "inv nscans limit b ?events this1" by simp
  have nz: "cb \<noteq> 0" using cb assms(8) by (simp add: exp_eq_zero_iff)
  have run: "emitted (RunOnce nscans limit True ?events ?start) = emitted (sendItems this1 cb)"
    using assms(1,3) rc nz by (simp add: RunOnce_def Let_def)
  have sw: "sendItems this1 cb = sendItems_loop (bits this1) (push_bit c 1) this1"
    using nz cb by (simp add: sendItems_def del: push_bit_of_1)
  from cov assms(8,9) have "(\<exists>x \<in> set (emitted this1). keyOf x = Some k)
      \<or> (\<exists>w. map_of (bits this1) k = Some w \<and> bit w c)" by (simp add: covered_def)
  then show ?thesis
  proof
    assume "\<exists>x \<in> set (emitted this1). keyOf x = Some k"
    then obtain x where x: "x \<in> set (emitted this1)" "keyOf x = Some k" by blast
    from sendItems_loop_emitted_mono [OF r1 x(1)] x(2) run sw show ?thesis by auto
  next
    assume "\<exists>w. map_of (bits this1) k = Some w \<and> bit w c"
    then obtain w where w: "map_of (bits this1) k = Some w" "bit w c" by blast
    then have mem: "(k, w) \<in> set (bits this1)" by (simp add: map_of_SomeD)
    have v: "\<forall>(k, w) \<in> set (bits this1).
               \<exists>it. map_of (values_map this1) k = Some it \<and> keyOf it = Some k"
    proof clarify
      fix k' w' assume "(k', w') \<in> set (bits this1)"
      with i have "map_of (bits this1) k' = Some w'" by (simp add: inv_def)
      with cov obtain it' where "map_of (values_map this1) k' = Some it'"
        by (auto simp: covered_def)
      with i show "\<exists>it. map_of (values_map this1) k' = Some it \<and> keyOf it = Some k'"
        by (auto simp: inv_def)
    qed
    from sendItems_loop_complete [OF r1 v mem w(2)] run sw show ?thesis by simp
  qed
qed

subsection \<open>The encoded plan\<close>




subsection \<open>Adding, finding and deleting\<close>

text \<open>
  C2. \<open>AddPrepared\<close> fails, with \<open>PreparedNameError "duplicate name: <name>"\<close>, exactly
  when the cache holds an entry under the name of the plan whose statement text differs,
  and succeeds otherwise; where the entry found has the same text, that entry afterwards
  holds the new plan and its \<open>populated\<close> flag is false.
\<close>

theorem AddPrepared_duplicate_name:
  "snd (AddPrepared env w p) =
     (if \<exists>ce. map_of (entries (cache w)) (Name p) = Some ce \<and> Text (Prepared ce) \<noteq> Text p
      then Some (PreparedNameError (''duplicate name: '' @ Name p)) else None)
   \<and> (\<forall>ce. map_of (entries (cache w)) (Name p) = Some ce \<and> Text (Prepared ce) = Text p \<longrightarrow>
         map_of (entries (cache (fst (AddPrepared env w p)))) (Name p)
           = Some (ce\<lparr>Prepared := p, populated := False\<rparr>))"
  by (auto simp: AddPrepared_def add_def Let_def distributePrepared_def GenCache_Add_def
      split: option.splits prod.splits)

theorem AddPrepared_duplicate_name_witness:
  "snd (AddPrepared (testEnv plan1 True) world1 plan2)
     = Some (PreparedNameError ''duplicate name: p1'')
   \<and> snd (AddPrepared (testEnv plan1 True) world1 plan1) = None
   \<and> map_of (entries (cache (fst (AddPrepared (testEnv plan1 True) world1 plan1)))) ''p1''
       = Some (entry1\<lparr>Prepared := plan1, populated := False\<rparr>)"
  using AddPrepared_duplicate_name [of "testEnv plan1 True" world1 plan2]
    AddPrepared_duplicate_name [of "testEnv plan1 True" world1 plan1]
  by (simp add: world1_def emptyWorld_def plan1_def plan2_def entry1_def newCacheEntry_def)

text \<open>
  C3, counterexample. \<open>AddPrepared\<close> of the plan \<open>plan0\<close>, whose name is empty,
  succeeds and stores it; \<open>GetPrepared\<close> of that name without option flags fails with
  \<open>NoSuchPrepared\<close>, since \<open>get\<close> turns the empty name away.
\<close>

theorem add_get_anonymous_counterexample:
  "AddPrepared (testEnv plan1 True) emptyWorld plan0
     = (emptyWorld\<lparr>cache := \<lparr>entries = [([], newCacheEntry 0 plan0 False False)], cacheLimit = 2\<rparr>,
                   distributed := [([], ''doc'')]\<rparr>, None)
   \<and> snd (GetPrepared (testEnv plan1 True)
            (fst (AddPrepared (testEnv plan1 True) emptyWorld plan0))
            (stringValue (Name plan0)) 0)
       = Inl (NoSuchPreparedError [])"
  by (simp add: AddPrepared_def add_def GenCache_Add_def distributePrepared_def testEnv_def
      emptyWorld_def plan0_def plan1_def GetPrepared_def getPrepared_def get_def Let_def
      numeral_2_eq_2)

text \<open>
  C3, as amended. For a plan with a non-empty name that \<open>SplitKey\<close> leaves whole, in a
  cache with room for at least one entry: after \<open>AddPrepared\<close> has succeeded,
  \<open>GetPrepared\<close> of the name without option flags returns the plan and changes nothing;
  after \<open>DeletePrepared\<close> of the name it fails with \<open>NoSuchPrepared\<close>; and
  \<open>DeletePrepared\<close> of a name that is not in the cache returns that error itself.
\<close>

theorem add_get_delete:
  assumes "Name p \<noteq> ''''" and "SplitKey env (Name p) = (h, Name p)" and "0 < cacheLimit (cache w)"
    and "AddPrepared env w p = (w1, None)"
  shows "GetPrepared env w1 (stringValue (Name p)) 0 = (w1, Inr p)
    \<and> snd (GetPrepared env (fst (DeletePrepared w1 (Name p))) (stringValue (Name p)) 0)
        = Inl (NoSuchPreparedError (Name p))
    \<and> (\<forall>w' n. map_of (entries (cache w')) n = None \<longrightarrow>
          snd (DeletePrepared w' n) = Some (NoSuchPreparedError n))"
proof -
  from AddPrepared_stores [OF assms(4,3)] obtain ce where
    ce: "map_of (entries (cache w1)) (Name p) = Some ce" "Prepared ce = p" by blast
  have 1: "GetPrepared env w1 (stringValue (Name p)) 0 = (w1, Inr p)"
    using ce by (simp add: GetPrepared_def getPrepared_plain [OF assms(2,1)])
  have "map_of (entries (cache (fst (DeletePrepared w1 (Name p))))) (Name p) = None"
    by (simp add: DeletePrepared_def GenCache_Delete_def delete_conv' split: option.splits)
  then have 2: "snd (GetPrepared env (fst (DeletePrepared w1 (Name p))) (stringValue (Name p)) 0)
        = Inl (NoSuchPreparedError (Name p))"
    by (simp add: GetPrepared_def getPrepared_plain [OF assms(2,1)])
  have 3: "\<forall>w' n. map_of (entries (cache w')) n = None \<longrightarrow>
          snd (DeletePrepared w' n) = Some (NoSuchPreparedError n)"
    by (simp add: DeletePrepared_def GenCache_Delete_def)
  from 1 2 3 show ?thesis by simp
qed

theorem add_get_delete_witness:
  "GetPrepared (testEnv plan1 True) (fst (AddPrepared (testEnv plan1 True) emptyWorld plan1))
     (stringValue ''p1'') 0
     = (fst (AddPrepared (testEnv plan1 True) emptyWorld plan1), Inr plan1)
   \<and> snd (GetPrepared (testEnv plan1 True)
       (fst (DeletePrepared (fst (AddPrepared (testEnv plan1 True) emptyWorld plan1)) ''p1''))
       (stringValue ''p1'') 0) = Inl (NoSuchPreparedError ''p1'')
   \<and> snd (DeletePrepared emptyWorld ''p1'') = Some (NoSuchPreparedError ''p1'')"
proof -
  have n: "Name plan1 = ''p1''" by (simp add: plan1_def)
  have a: "Name plan1 \<noteq> ''''" by (simp add: plan1_def)
  have b: "SplitKey (testEnv plan1 True) (Name plan1) = ([], Name plan1)"
    by (simp add: testEnv_def)
  have c: "0 < cacheLimit (cache emptyWorld)" by (simp add: emptyWorld_def)
  have d: "AddPrepared (testEnv plan1 True) emptyWorld plan1
             = (fst (AddPrepared (testEnv plan1 True) emptyWorld plan1), None)"
    by (simp add: AddPrepared_def add_def emptyWorld_def)
  have e: "map_of (entries (cache emptyWorld)) ''p1'' = None" by (simp add: emptyWorld_def)
  from add_get_delete [OF a b c d] have
    "\<forall>w' n. map_of (entries (cache w')) n = None \<longrightarrow>
        snd (DeletePrepared w' n) = Some (NoSuchPreparedError n)" by blast
  with e have "snd (DeletePrepared emptyWorld ''p1'') = Some (NoSuchPreparedError ''p1'')"
    by blast
  with add_get_delete [OF a b c d] show ?thesis by (simp add: n)
qed

subsection \<open>Recording metrics\<close>

text \<open>
  C8. Over every sequence of \<open>RecordPreparedMetrics\<close> calls, an entry of the cache
  stays where it is, its \<open>MinServiceTime\<close> and \<open>MinRequestTime\<close> do not grow and its
  \<open>MaxServiceTime\<close> and \<open>MaxRequestTime\<close> do not shrink: afterwards each minimum is the
  least, and each maximum the greatest, of the value the entry had and the samples of the
  calls that named it. A single call on a cached plan with a non-empty name replaces its
  entry by \<open>recordMetrics\<close> of it, whose minima and maxima are the \<open>min\<close> and \<open>max\<close> of the old
  value and the sample. The entry that \<open>add\<close> prepares has the minima at \<open>MaxUint64\<close> and
  the maxima at 0, and the first sample recorded on it is both its minimum and its
  maximum; so it is for a plan with a non-empty name after \<open>AddPrepared\<close> has put it into a
  cache with room for it.
\<close>

theorem RecordPreparedMetrics_min_max:
  "(\<forall>ce. map_of (entries (cache w)) n = Some ce \<longrightarrow>
      (\<exists>ce'. map_of (entries (cache (RecordAll w calls))) n = Some ce' \<and> metrics_le ce ce'
         \<and> MinServiceTime ce' = Min (insert (MinServiceTime ce) (snd ` set (samples n calls)))
         \<and> MaxServiceTime ce' = Max (insert (MaxServiceTime ce) (snd ` set (samples n calls)))
         \<and> MinRequestTime ce' = Min (insert (MinRequestTime ce) (fst ` set (samples n calls)))
         \<and> MaxRequestTime ce' = Max (insert (MaxRequestTime ce) (fst ` set (samples n calls)))))
   \<and> (\<forall>ce. Name q \<noteq> [] \<and> map_of (entries (cache w)) (Name q) = Some ce \<longrightarrow>
         map_of (entries (cache (RecordPreparedMetrics w (Some q) r s))) (Name q)
           = Some (recordMetrics r s ce)
         \<and> MinServiceTime (recordMetrics r s ce) = min (MinServiceTime ce) s
         \<and> MaxServiceTime (recordMetrics r s ce) = max (MaxServiceTime ce) s
         \<and> MinRequestTime (recordMetrics r s ce) = min (MinRequestTime ce) r
         \<and> MaxRequestTime (recordMetrics r s ce) = max (MaxRequestTime ce) r)
   \<and> (Name q \<noteq> [] \<and> map_of (entries (cache w)) (Name q) = None \<and> 0 < cacheLimit (cache w) \<longrightarrow>
         (\<exists>ce'. map_of (entries (cache (RecordPreparedMetrics (fst (AddPrepared env w q))
                                          (Some q) r s))) (Name q) = Some ce'
            \<and> MinServiceTime ce' = s \<and> MaxServiceTime ce' = s
            \<and> MinRequestTime ce' = r \<and> MaxRequestTime ce' = r))
   \<and> MinServiceTime (newCacheEntry t p pop tr) = MaxUint64
   \<and> MinRequestTime (newCacheEntry t p pop tr) = MaxUint64
   \<and> MaxServiceTime (newCacheEntry t p pop tr) = 0
   \<and> MaxRequestTime (newCacheEntry t p pop tr) = 0
   \<and> MinServiceTime (recordMetrics r s (newCacheEntry t p pop tr)) = s
   \<and> MaxServiceTime (recordMetrics r s (newCacheEntry t p pop tr)) = s
   \<and> MinRequestTime (recordMetrics r s (newCacheEntry t p pop tr)) = r
   \<and> MaxRequestTime (recordMetrics r s (newCacheEntry t p pop tr)) = r"
proof -
  have 1: "\<exists>ce'. map_of (entries (cache (RecordAll w calls))) n = Some ce' \<and> metrics_le ce ce'
         \<and> MinServiceTime ce' = Min (insert (MinServiceTime ce) (snd ` set (samples n calls)))
         \<and> MaxServiceTime ce' = Max (insert (MaxServiceTime ce) (snd ` set (samples n calls)))
         \<and> MinRequestTime ce' = Min (insert (MinRequestTime ce) (fst ` set (samples n calls)))
         \<and> MaxRequestTime ce' = Max (insert (MaxRequestTime ce) (fst ` set (samples n calls)))"
    if "map_of (entries (cache w)) n = Some ce" for ce
    using RecordAll_exact [OF that, of calls] RecordAll_le [OF that, of calls] by auto
  have 2: "map_of (entries (cache (RecordPreparedMetrics w (Some q) r s))) (Name q)
             = Some (recordMetrics r s ce)
         \<and> MinServiceTime (recordMetrics r s ce) = min (MinServiceTime ce) s
         \<and> MaxServiceTime (recordMetrics r s ce) = max (MaxServiceTime ce) s
         \<and> MinRequestTime (recordMetrics r s ce) = min (MinRequestTime ce) r
         \<and> MaxRequestTime (recordMetrics r s ce) = max (MaxRequestTime ce) r"
    if "Name q \<noteq> []" "map_of (entries (cache w)) (Name q) = Some ce" for ce
    using that by (simp add: RecordPreparedMetrics_entry recordMetrics_exact)
  have 3: "\<exists>ce'. map_of (entries (cache (RecordPreparedMetrics (fst (AddPrepared env w q))
                                          (Some q) r s))) (Name q) = Some ce'
            \<and> MinServiceTime ce' = s \<and> MaxServiceTime ce' = s
            \<and> MinRequestTime ce' = r \<and> MaxRequestTime ce' = r"
    if "Name q \<noteq> []" "map_of (entries (cache w)) (Name q) = None" "0 < cacheLimit (cache w)"
    using that(1) RecordPreparedMetrics_entry
                    [OF AddPrepared_new [OF that(2,3)], where p = "Some q" and r = r and s = s]
    by (simp add: first_sample)
  from 1 2 3 show ?thesis by (simp only: first_sample) blast
qed

theorem RecordPreparedMetrics_min_max_witness:
  "(\<exists>ce'. map_of (entries (cache (RecordAll world1 [(Some plan1, 3, 12), (Some plan1, 20, 1)]))) ''p1''
       = Some ce'
      \<and> MinServiceTime ce' = 1 \<and> MaxServiceTime ce' = 12
      \<and> MinRequestTime ce' = 3 \<and> MaxRequestTime ce' = 20)
   \<and> (\<exists>ce'. map_of (entries (cache (RecordPreparedMetrics
                  (fst (AddPrepared (testEnv plan1 True) emptyWorld plan1)) (Some plan1) 5 6))) ''p1''
       = Some ce'
      \<and> MinServiceTime ce' = 6 \<and> MaxServiceTime ce' = 6
      \<and> MinRequestTime ce' = 5 \<and> MaxRequestTime ce' = 5)
   \<and> map_of (entries (cache (RecordPreparedMetrics world1 (Some plan1) 3 12))) ''p1''
       = Some (recordMetrics 3 12 entry1)
   \<and> MinServiceTime (recordMetrics 3 12 entry1) = 7
   \<and> MaxServiceTime (recordMetrics 3 12 entry1) = 12
   \<and> MinRequestTime (recordMetrics 3 12 entry1) = 3
   \<and> MaxRequestTime (recordMetrics 3 12 entry1) = 8"
proof -
  have e: "map_of (entries (cache world1)) ''p1'' = Some entry1"
    by (simp add: world1_def)
  have n: "Name plan1 = ''p1''" by (simp add: plan1_def)
  have m: "MinServiceTime entry1 = 7" "MaxServiceTime entry1 = 9"
    "MinRequestTime entry1 = 8" "MaxRequestTime entry1 = 8"
    by (simp_all add: entry1_def)
  have f: "map_of (entries (cache emptyWorld)) ''p1'' = None" "0 < cacheLimit (cache emptyWorld)"
    by (simp_all add: emptyWorld_def)
  from RecordPreparedMetrics_min_max
         [of world1 "''p1''" "[(Some plan1, 3, 12), (Some plan1, 20, 1)]",
          THEN conjunct1, rule_format, OF e]
  have 1: "\<exists>ce'. map_of (entries (cache (RecordAll world1 [(Some plan1, 3, 12), (Some plan1, 20, 1)]))) ''p1''
       = Some ce'
      \<and> MinServiceTime ce' = 1 \<and> MaxServiceTime ce' = 12
      \<and> MinRequestTime ce' = 3 \<and> MaxRequestTime ce' = 20"
    by (auto simp: n m)
  from RecordPreparedMetrics_min_max
         [of emptyWorld _ _ plan1 5 6 "testEnv plan1 True",
          THEN conjunct2, THEN conjunct2, THEN conjunct1] f n
  have 2: "\<exists>ce'. map_of (entries (cache (RecordPreparedMetrics
                  (fst (AddPrepared (testEnv plan1 True) emptyWorld plan1)) (Some plan1) 5 6))) ''p1''
       = Some ce'
      \<and> MinServiceTime ce' = 6 \<and> MaxServiceTime ce' = 6
      \<and> MinRequestTime ce' = 5 \<and> MaxRequestTime ce' = 5"
    by simp
  from RecordPreparedMetrics_min_max
         [of world1 _ _ plan1 3 12, THEN conjunct2, THEN conjunct1, rule_format, of entry1] e n
  have 3: "map_of (entries (cache (RecordPreparedMetrics world1 (Some plan1) 3 12))) ''p1''
       = Some (recordMetrics 3 12 entry1)
   \<and> MinServiceTime (recordMetrics 3 12 entry1) = 7
   \<and> MaxServiceTime (recordMetrics 3 12 entry1) = 12
   \<and> MinRequestTime (recordMetrics 3 12 entry1) = 3
   \<and> MaxRequestTime (recordMetrics 3 12 entry1) = 8"
    by (simp add: m)
  from 1 2 3 show ?thesis by simp
qed

subsection \<open>Decoding an anonymous plan\<close>

text \<open>
  C10. When the encoded plan decodes to a plan with an empty name, \<open>DecodePrepared\<close>
  returns that plan, with the input as its encoded plan, and leaves the state as it was,
  whatever \<open>track\<close> and \<open>distribute\<close> are: the cache is unchanged, nothing has been sent
  to the peers and \<open>Verify\<close> has not been called.
\<close>

theorem DecodePrepared_empty_name:
  assumes "base64_DecodeString env prepared_stmt = Some decoded"
    and "gzip_ReadAll env decoded = Some prepared_bytes"
    and "unmarshalPrepared env prepared_bytes = Inr prepared"
    and "Name prepared = ''''"
  shows "DecodePrepared env w prepared_name prepared_stmt track distribute
           = (w, Inr (prepared\<lparr>EncodedPlan := prepared_stmt\<rparr>))"
  using assms by (simp add: DecodePrepared_def)

theorem DecodePrepared_empty_name_witness:
  "DecodePrepared (testEnv plan0 True) world1 [] ''doc'' True True
     = (world1, Inr (plan0\<lparr>Operator := Some (Parallel (SendDelete (KeyspaceHandle ''default:orders'')
                                                          None ''orders'' None) 0),
                            EncodedPlan := ''doc''\<rparr>))"
proof -
  let ?op = "Parallel (SendDelete (KeyspaceHandle ''default:orders'')
                         (Some orders_ref) ''orders'' None) (- 1)"
  have o: "Operator plan0 = Some ?op" by (simp add: plan0_def plan1_def)
  have ok: "operator_ok testPlanEnv ?op"
    by (simp add: testPlanEnv_def orders_ref_def string_field_def)
  have u: "unmarshalPrepared (testEnv plan0 True) ''doc''
             = Inr (plan0\<lparr>EncodedPlan := [], Operator := Some (reloaded testPlanEnv ?op)\<rparr>)"
    by (simp add: unmarshalPrepared_def Prepared_UnmarshalJSON_def testEnv_def
          Prepared_round_trip [OF o ok])
  have "DecodePrepared (testEnv plan0 True) world1 [] ''doc'' True True
     = (world1, Inr ((plan0\<lparr>EncodedPlan := [], Operator := Some (reloaded testPlanEnv ?op)\<rparr>)
                       \<lparr>EncodedPlan := ''doc''\<rparr>))"
    by (rule DecodePrepared_empty_name [OF _ _ u]) (simp_all add: testEnv_def plan0_def)
  then show ?thesis by simp
qed

subsection \<open>The text of a prepared statement\<close>

text \<open>
  C9 (evaluation at the failing input). When the prefix \<open>text[:offset]\<close> ends in the
  keyword itself, \<open>i + 6\<close> is one past the end of the prefix and the slice expression
  \<open>prepare[i+6:]\<close> panics: \<open>GetText\<close> is not total on \<open>0 \<le> offset \<le> len(text)\<close>.
\<close>

theorem GetText_force_at_end_panics:
  "GetText ''PREPARE FORCE(SELECT 1)'' 13 = Inl SliceBoundsOutOfRange"
  by (simp add: GetText_def slice_to_def slice_from_def Index_def ToUpper_def upper_byte_def)

subsection \<open>IFINF, IFNAN and IFNANORINF\<close>

text \<open>
  C5, counterexample. \<open>IFNAN\<close> of two MISSING arguments is NULL, not MISSING;
  \<open>IFINF\<close> of a string and the number 1 is NULL, not the number; \<open>IFINF\<close> of MISSING and
  a string is MISSING, although not every argument is MISSING.
\<close>

theorem conditional_number_functions_counterexample:
  "IfNaN_Evaluate [Inr MISSING_VALUE, Inr MISSING_VALUE] = Inr NULL_VALUE
   \<and> IfInf_Evaluate [Inr (stringValue ''a''), Inr (floatValue (Finite 1 0))] = Inr NULL_VALUE
   \<and> IfInf_Evaluate [Inr MISSING_VALUE, Inr (stringValue ''a'')] = Inr MISSING_VALUE"
  by (simp add: IfNaN_Evaluate_def IfInf_Evaluate_def)

text \<open>
  C5, as amended. For arguments that all evaluate without an error, each function looks at
  the arguments in front of the first one that is neither MISSING nor a NUMBER, and returns
  the first NUMBER among them that qualifies (not infinite for \<open>IFINF\<close>, not NaN for
  \<open>IFNAN\<close>, neither for \<open>IFNANORINF\<close>). Where there is none, \<open>IFINF\<close> returns MISSING if
  one of those arguments is MISSING and NULL otherwise, and \<open>IFNAN\<close> and \<open>IFNANORINF\<close>
  return NULL.
\<close>

theorem conditional_number_functions:
  "IfInf_Evaluate (map Inr args) =
     Inr (case first_number (\<lambda>f. \<not> IsInf f) (scanned args) of
            Some v \<Rightarrow> v
          | None \<Rightarrow> if MISSING_VALUE \<in> set (scanned args) then MISSING_VALUE else NULL_VALUE)
   \<and> IfNaN_Evaluate (map Inr args) =
     Inr (case first_number (\<lambda>f. \<not> IsNaN f) (scanned args) of
            Some v \<Rightarrow> v | None \<Rightarrow> NULL_VALUE)
   \<and> IfNaNOrInf_Evaluate (map Inr args) =
     Inr (case first_number (\<lambda>f. \<not> IsInf f \<and> \<not> IsNaN f) (scanned args) of
            Some v \<Rightarrow> v | None \<Rightarrow> NULL_VALUE)"
  by (simp add: IfInf_Evaluate_def IfNaN_Evaluate_def IfNaNOrInf_Evaluate_def
        IfInf_loop_scan IfNaN_loop_scan)

theorem conditional_number_functions_witness:
  "IfInf_Evaluate [Inr MISSING_VALUE, Inr (floatValue PosInf), Inr (floatValue (Finite 3 0)),
                   Inr (stringValue ''x'')] = Inr (floatValue (Finite 3 0))
   \<and> IfNaN_Evaluate [Inr (floatValue NaN), Inr MISSING_VALUE] = Inr NULL_VALUE
   \<and> IfNaNOrInf_Evaluate [Inr (floatValue NaN), Inr (floatValue NegInf),
                          Inr (floatValue (Finite 1 1))] = Inr (floatValue (Finite 1 1))"
  using conditional_number_functions
          [of "[MISSING_VALUE, floatValue PosInf, floatValue (Finite 3 0), stringValue ''x'']"]
    conditional_number_functions [of "[floatValue NaN, MISSING_VALUE]"]
    conditional_number_functions
          [of "[floatValue NaN, floatValue NegInf, floatValue (Finite 1 1)]"]
  by (simp add: scanned_def first_number_def IsInf_def IsNaN_def)

subsection \<open>The spans of a less-than predicate\<close>

text \<open>
  C6, counterexample. The index key is the expression \<open>a < 5\<close> and the predicate is
  \<open>a < 5\<close>: the predicate depends on the key and neither of its sides is equivalent to the
  key, but \<open>VisitLT\<close> returns \<open>_SELF_SPANS\<close>, not \<open>_VALUED_SPANS\<close>, because the predicate is a
  subset of the key.
\<close>

theorem VisitLT_subset_counterexample:
  "DependsOn testSarg (LT (Identifier ''a'') (Constant (floatValue (Finite 5 0))))
      (LT (Identifier ''a'') (Constant (floatValue (Finite 5 0))))
   \<and> \<not> EquivalentTo testSarg (Identifier ''a'')
        (LT (Identifier ''a'') (Constant (floatValue (Finite 5 0))))
   \<and> \<not> EquivalentTo testSarg (Constant (floatValue (Finite 5 0)))
        (LT (Identifier ''a'') (Constant (floatValue (Finite 5 0))))
   \<and> VisitLT testSarg (LT (Identifier ''a'') (Constant (floatValue (Finite 5 0))))
        (Identifier ''a'') (Constant (floatValue (Finite 5 0)))
       = Some (SELF_SPANS testSarg)
   \<and> SELF_SPANS testSarg \<noteq> VALUED_SPANS testSarg"
  by (simp add: VisitLT_def testSarg_def)

text \<open>
  C6, as amended. If the predicate is a subset of the key, \<open>VisitLT\<close> returns
  \<open>_SELF_SPANS\<close>. Otherwise: for \<open>k < c\<close> the span is \<open>{Low: _NULL_EXPRS, High: {c'},
  Inclusion: NEITHER, Exact: true}\<close> and for \<open>c < k\<close> it is \<open>{Low: {c'}, Inclusion: NEITHER,
  Exact: true}\<close>, where \<open>c'\<close> is the static form of \<open>c\<close>, and \<open>_VALUED_SPANS\<close> if \<open>c\<close> has no
  static form; if neither side is equivalent to the key the result is \<open>_VALUED_SPANS\<close> when
  the predicate depends on the key and \<open>nil\<close> when it does not.
\<close>

theorem VisitLT_spans:
  "(SubsetOf this (LT first second) key \<longrightarrow>
      VisitLT this key first second = Some (SELF_SPANS this))
   \<and> (\<not> SubsetOf this (LT first second) key \<longrightarrow>
      (EquivalentTo this first key \<longrightarrow>
         (\<forall>c. Static this second = Some c \<longrightarrow>
            VisitLT this key first second =
              Some [\<lparr> Low = NULL_EXPRS this, High = [c], Inclusion = NEITHER, Exact = True \<rparr>])
         \<and> (Static this second = None \<longrightarrow>
              VisitLT this key first second = Some (VALUED_SPANS this)))
      \<and> (\<not> EquivalentTo this first key \<and> EquivalentTo this second key \<longrightarrow>
         (\<forall>c. Static this first = Some c \<longrightarrow>
            VisitLT this key first second =
              Some [\<lparr> Low = [c], High = [], Inclusion = NEITHER, Exact = True \<rparr>])
         \<and> (Static this first = None \<longrightarrow>
              VisitLT this key first second = Some (VALUED_SPANS this)))
      \<and> (\<not> EquivalentTo this first key \<and> \<not> EquivalentTo this second key
           \<and> DependsOn this (LT first second) key \<longrightarrow>
         VisitLT this key first second = Some (VALUED_SPANS this))
      \<and> (\<not> EquivalentTo this first key \<and> \<not> EquivalentTo this second key
           \<and> \<not> DependsOn this (LT first second) key \<longrightarrow>
         VisitLT this key first second = None))"
  by (simp add: VisitLT_def)

theorem VisitLT_spans_witness:
  "VisitLT testSarg (Identifier ''k'') (Identifier ''k'') (Constant (floatValue (Finite 5 0)))
     = Some [\<lparr> Low = [Constant NULL_VALUE], High = [Constant (floatValue (Finite 5 0))],
               Inclusion = NEITHER, Exact = True \<rparr>]
   \<and> VisitLT testSarg (Identifier ''k'') (Constant (floatValue (Finite 5 0))) (Identifier ''k'')
     = Some [\<lparr> Low = [Constant (floatValue (Finite 5 0))], High = [],
               Inclusion = NEITHER, Exact = True \<rparr>]
   \<and> VisitLT testSarg (Identifier ''k'') (Identifier ''k'') (Identifier ''x'')
     = Some (VALUED_SPANS testSarg)
   \<and> VisitLT testSarg (Identifier ''k'') (Function ''abs'' [Identifier ''k''])
        (Constant (floatValue (Finite 5 0)))
     = Some (VALUED_SPANS testSarg)
   \<and> VisitLT testSarg (Identifier ''k'') (Identifier ''x'') (Constant (floatValue (Finite 5 0)))
     = None
   \<and> VisitLT testSarg (LT (Identifier ''a'') (Identifier ''b'')) (Identifier ''a'') (Identifier ''b'')
     = Some (SELF_SPANS testSarg)"
  using VisitLT_spans [of testSarg "Identifier ''k''" "Constant (floatValue (Finite 5 0))" "Identifier ''k''"]
    VisitLT_spans [of testSarg "Constant (floatValue (Finite 5 0))" "Identifier ''k''" "Identifier ''k''"]
    VisitLT_spans [of testSarg "Identifier ''k''" "Identifier ''x''" "Identifier ''k''"]
    VisitLT_spans [of testSarg "Function ''abs'' [Identifier ''k'']" "Constant (floatValue (Finite 5 0))" "Identifier ''k''"]
    VisitLT_spans [of testSarg "Identifier ''x''" "Constant (floatValue (Finite 5 0))" "Identifier ''k''"]
    VisitLT_spans [of testSarg "Identifier ''a''" "Identifier ''b''" "LT (Identifier ''a'') (Identifier ''b'')"]
  by (simp add: testSarg_def)

subsection \<open>No primary index online\<close>

text \<open>
  C7, counterexample. The keyspace \<open>default:travel\<close> has one primary index, which is
  offline; no index is hinted. The error is \<open>"Primary index #primary not online."\<close>: it
  names the index, not the keyspace, and does not suggest \<open>CREATE PRIMARY INDEX\<close>.
\<close>

theorem buildPrimaryIndex_offline_counterexample:
  "buildPrimaryIndex (Inr [Inr [offlinePrimary]]) [] ''default:travel'' False
     = (None, Some ''Primary index #primary not online.'')"
  by (simp add: buildPrimaryIndex_def offlinePrimary_def)

text \<open>
  C7, as amended. When no hinted index is primary, \<open>force\<close> is not set, the keyspace
  lists its indexers and primary indexes without an error and every primary index reports
  a state other than ONLINE, \<open>buildPrimaryIndex\<close> fails: with the message that names the
  keyspace and suggests \<open>CREATE PRIMARY INDEX\<close> if the keyspace has no primary index at
  all, and with \<open>"Primary index <name> not online."\<close>, for the last primary index looked
  at, if it has one.
\<close>

theorem buildPrimaryIndex_no_online_primary:
  assumes "\<forall>index \<in> set indexes. \<not> IsPrimary index" and "\<not> force"
    and "keyspace = Inr indexers" and "\<forall>ix \<in> set indexers. \<exists>ps. ix = Inr ps"
    and "\<forall>p \<in> set (all_primaries indexers). \<exists>st. State p = Inr st \<and> st \<noteq> ONLINE"
  shows "buildPrimaryIndex keyspace indexes path force =
     (None, Some (if all_primaries indexers = [] then no_index_message path
                  else ''Primary index '' @ IndexName (last (all_primaries indexers))
                       @ '' not online.''))"
  using assms(2,3)
  by (simp add: buildPrimaryIndex_def hintsLoop_no_primary [OF assms(1)]
        indexersLoop_none_online [OF assms(4,5)])

theorem buildPrimaryIndex_no_online_primary_witness:
  "buildPrimaryIndex (Inr [Inr []]) [] ''default:travel'' False
     = (None, Some ''No index available on keyspace default:travel that matches your query. Use CREATE PRIMARY INDEX ON default:travel to create a primary index, or check that your expected index is online.'')
   \<and> buildPrimaryIndex (Inr [Inr [offlinePrimary], Inr []]) [] ''default:travel'' False
     = (None, Some ''Primary index #primary not online.'')"
  using buildPrimaryIndex_no_online_primary [of "[]" False "Inr [Inr []]" "[Inr []]" "''default:travel''"]
    buildPrimaryIndex_no_online_primary [of "[]" False "Inr [Inr [offlinePrimary], Inr []]"
      "[Inr [offlinePrimary], Inr []]" "''default:travel''"]
  by (simp add: no_index_message_def offlinePrimary_def)

subsection \<open>What the intersect scan emits\<close>

text \<open>
  C4, counterexample. Two child scans: child 0 produces the key \<open>a\<close> and terminates,
  then child 1 terminates without an item. The scan emits \<open>a\<close>, which child 1 has not
  produced. With the limit 1, when child 0 produces \<open>a\<close> and \<open>b\<close> before it terminates,
  the scan emits two items.
\<close>

theorem intersect_scan_counterexample:
  "emitted (RunOnce 2 0 True [Item (scanItem ''a'' 0), ChildDone 0, ChildDone 1, Closed]
              (NewIntersectScan 7 None))
     = [(scanItem ''a'' 0)\<lparr>Bit := 7\<rparr>]
   \<and> \<not> received_from [Item (scanItem ''a'' 0), ChildDone 0, ChildDone 1, Closed] ''a'' 1
   \<and> length (emitted (RunOnce 2 1 True
         [Item (scanItem ''a'' 0), Item (scanItem ''b'' 0), ChildDone 0, ChildDone 1, Closed]
         (NewIntersectScan 7 None))) = 2"
proof -
  have fb: "fullBitsOf 2 = 3" by code_simp
  show ?thesis
    by (simp add: RunOnce_def fb NewIntersectScan_def processKey_def keyOf_def
          scanItem_def sendItems_def sendItem_def received_from_def Let_def)
qed

text \<open>
  C4, as amended. For at most 64 child scans and every order in which their items and
  terminations arrive: each item that the receive loop sends on carries the bit of the
  intersect scan and a key that has been received from every child, and under a limit
  \<open>L > 0\<close> the loop sends on at most \<open>L\<close> items. The sweep after the loop, \<open>sendItems\<close>,
  adds items with the bit of the scan whose keys have been received from the child that
  terminated first; \<open>RunOnce\<close> emits what the loop emitted, with or without the sweep.
  When there is no limit, the consumer does not stop, every item has a key and the run
  ends with the channel closed, every key received from the child that terminated first,
  and so every key that all children produced, is emitted.
\<close>

theorem intersect_scan_emits:
  assumes "0 < nscans" and "nscans \<le> 64"
    and "receive (int nscans) (fullBitsOf nscans) limit events (NewIntersectScan b r)
           (int nscans) 0 = (this1, childBits, outcome)"
  shows "(\<forall>x \<in> set (emitted this1).
            Bit x = b \<and> (\<exists>k. keyOf x = Some k \<and> (\<forall>i<nscans. received_from events k i)))
       \<and> (0 < limit \<longrightarrow> int (length (emitted this1)) \<le> limit)
       \<and> (\<exists>ys. emitted (sendItems this1 childBits) = emitted this1 @ ys
             \<and> (\<forall>y \<in> set ys. Bit y = b
                   \<and> (\<exists>k c. first_done events = Some c \<and> keyOf y = Some k
                         \<and> received_from events k c)))
       \<and> (emitted (RunOnce nscans limit True events (NewIntersectScan b r)) = emitted this1
            \<or> emitted (RunOnce nscans limit True events (NewIntersectScan b r))
                = emitted (sendItems this1 childBits))
       \<and> (\<forall>pre later c k.
             r = None \<and> limit \<le> 0 \<and> events = pre @ Closed # later
             \<and> (\<forall>it. Item it \<in> set pre \<longrightarrow> keyOf it \<noteq> None)
             \<and> Closed \<notin> set pre \<and> Stop \<notin> set pre
             \<and> first_done pre = Some c \<and> c < 64 \<and> received_from pre k c \<longrightarrow>
             (\<exists>x \<in> set (emitted (RunOnce nscans limit True events (NewIntersectScan b r))).
                keyOf x = Some k))"
proof -
  have h: "0 < limit \<longrightarrow> sent (NewIntersectScan b r) < limit"
    by (simp add: NewIntersectScan_def)
  from receive_inv [OF inv_start h assms(2,3)]
  have i: "inv nscans limit b events this1" by simp
  then have 1: "\<forall>x \<in> set (emitted this1).
            Bit x = b \<and> (\<exists>k. keyOf x = Some k \<and> (\<forall>i<nscans. received_from events k i))"
    and 2: "0 < limit \<longrightarrow> int (length (emitted this1)) \<le> limit"
    by (auto simp: inv_def)
  have 3: "\<exists>ys. emitted (sendItems this1 childBits) = emitted this1 @ ys
             \<and> (\<forall>y \<in> set ys. Bit y = b
                   \<and> (\<exists>k c. first_done events = Some c \<and> keyOf y = Some k
                         \<and> received_from events k c))"
  proof (cases "childBits = 0")
    case True
    then show ?thesis by (simp add: sendItems_def)
  next
    case False
    with receive_childBits [OF assms(3)] obtain c where
      c: "first_done events = Some c" "childBits = push_bit c 1" by blast
    with False have "c < 64" by (simp add: exp_eq_zero_iff)
    with c have c64: "bit childBits c"
      by (simp add: bit_push_bit_1 del: push_bit_of_1)
    have a: "\<forall>(k, w) \<in> set (bits this1). \<forall>i. bit w i \<longrightarrow> received_from events k i"
      using i by (auto simp: inv_def)
    have v: "\<forall>k it. map_of (values_map this1) k = Some it \<longrightarrow> keyOf it = Some k"
      using i by (simp add: inv_def)
    from sendItems_loop_sound [OF a v, of childBits] obtain ys where
      ys: "emitted (sendItems_loop (bits this1) childBits this1) = emitted this1 @ ys"
        "\<forall>y \<in> set ys. Bit y = scan_bit this1
          \<and> (\<exists>k. keyOf y = Some k \<and> (\<forall>c. bit childBits c \<longrightarrow> received_from events k c))"
      by blast
    have "scan_bit this1 = b" using i by (simp add: inv_def)
    with ys c c64 False show ?thesis
      by (auto simp: sendItems_def intro!: exI [of _ ys])
  qed
  have 4: "emitted (RunOnce nscans limit True events (NewIntersectScan b r)) = emitted this1
            \<or> emitted (RunOnce nscans limit True events (NewIntersectScan b r))
                = emitted (sendItems this1 childBits)"
    using assms(1,3) by (cases outcome) (auto simp: RunOnce_def Let_def)
  have 5: "\<forall>pre later c k.
             r = None \<and> limit \<le> 0 \<and> events = pre @ Closed # later
             \<and> (\<forall>it. Item it \<in> set pre \<longrightarrow> keyOf it \<noteq> None)
             \<and> Closed \<notin> set pre \<and> Stop \<notin> set pre
             \<and> first_done pre = Some c \<and> c < 64 \<and> received_from pre k c \<longrightarrow>
             (\<exists>x \<in> set (emitted (RunOnce nscans limit True events (NewIntersectScan b r))).
                keyOf x = Some k)"
    using intersect_scan_complete [OF assms(1,2)] by blast
  from 1 2 3 4 5 show ?thesis by blast
qed

theorem intersect_scan_emits_witness:
  "int (length (emitted (fst (receive 2 (fullBitsOf 2) 1
         [Item (scanItem ''k3'' 0), Item (scanItem ''k3'' 1), Item (scanItem ''k2'' 0),
          ChildDone 1, ChildDone 0, Closed] (NewIntersectScan 7 None) 2 0)))) \<le> 1"
proof -
  let ?events = "[Item (scanItem ''k3'' 0), Item (scanItem ''k3'' 1), Item (scanItem ''k2'' 0),
          ChildDone 1, ChildDone 0, Closed]"
  let ?R = "receive (int 2) (fullBitsOf 2) 1 ?events (NewIntersectScan 7 None) (int 2) 0"
  have a: "(0::nat) < 2" and b: "(2::nat) \<le> 64" by simp_all
  have c: "?R = (fst ?R, fst (snd ?R), snd (snd ?R))" by simp
  from intersect_scan_emits [OF a b c]
  have "(0::int) < 1 \<longrightarrow> int (length (emitted (fst ?R))) \<le> 1" by blast
  then show ?thesis by simp
qed

end
